theory Spec2Isabelle
  imports Complex_Main "HOL-Library.Monad_Syntax"
begin

section \<open>Numbers, vectors and keys\<close>

text \<open>
  JavaScript numbers are idealised: a number that the program only ever uses as an
  integer (a cell coordinate, a lattice point, a seed, a radius) is an \<open>int\<close>, every
  other number is a \<open>real\<close>. Rounding, overflow to infinity and NaN inputs are outside
  the model; the one place where the program itself produces NaN from well-formed
  arguments (the spawn chance of an inherited property name) is modelled by \<open>jsnum\<close>.
  A \<open>{x, y}\<close> object and a Victor are a pair.
\<close>

type_synonym vec = "real \<times> real"

datatype jsnum = Num real | NaN

text \<open>The template literal \<open>`${n}`\<close> of an integer: its decimal digits, with a leading
  minus sign below zero.\<close>

definition digit_char :: "nat \<Rightarrow> char" where
  "digit_char d = ''0123456789'' ! d"

function digits :: "nat \<Rightarrow> string" where
  "digits n = (if n < 10 then [digit_char n] else digits (n div 10) @ [digit_char (n mod 10)])"
  by pat_completeness auto
termination
  by (relation "measure id") auto

declare digits.simps [simp del]

definition show_int :: "int \<Rightarrow> string" where
  "show_int i = (if i < 0 then CHR ''-'' # digits (nat (- i)) else digits (nat i))"

text \<open>\<open>Grid.getCellKey\<close>: \<open>`x_${cellX}_y_${cellY}`\<close>.\<close>

definition getCellKey :: "int \<Rightarrow> int \<Rightarrow> string" where
  "getCellKey cellX cellY = ''x_'' @ show_int cellX @ ''_y_'' @ show_int cellY"

text \<open>\<open>Grid.worldToCell\<close>: \<open>Math.floor\<close> of the quotient on each axis.\<close>

definition worldToCell :: "real \<Rightarrow> real \<Rightarrow> real \<Rightarrow> int \<times> int" where
  "worldToCell cellSize worldX worldY = (\<lfloor>worldX / cellSize\<rfloor>, \<lfloor>worldY / cellSize\<rfloor>)"

text \<open>The JavaScript remainder \<open>a % b\<close> on integers: the sign follows the dividend.\<close>

definition js_rem :: "int \<Rightarrow> int \<Rightarrow> int" where
  "js_rem a b = sgn a * (\<bar>a\<bar> mod \<bar>b\<bar>)"

section \<open>PerlinNoise\<close>

text \<open>
  The generator object: its seed and its two caches. \<open>gradients\<close> is keyed by the string
  \<open>`${ix},${iy}`\<close> of a lattice point. \<open>memory\<close> is keyed by \<open>`${x},${y}`\<close> of two
  arbitrary numbers; number-to-string conversion is one-to-one on the values of a number,
  so the model keys it by the pair itself.
\<close>

record PerlinNoise =
  seed :: int
  gradients :: "string \<rightharpoonup> vec"
  memory :: "real \<times> real \<rightharpoonup> real"

definition PerlinNoise_new :: "int \<Rightarrow> PerlinNoise" where
  "PerlinNoise_new sd = \<lparr>seed = sd, gradients = Map.empty, memory = Map.empty\<rparr>"

definition gradientKey :: "int \<Rightarrow> int \<Rightarrow> string" where
  "gradientKey ix iy = show_int ix @ '','' @ show_int iy"

definition hashAngle :: "int \<Rightarrow> int \<Rightarrow> int \<Rightarrow> real" where
  "hashAngle sd ix iy =
     (let hash = js_rem (ix * 374761393 + iy * 668265263 + sd * 1000) 2147483647
      in (real_of_int hash / 2147483647) * 2 * pi)"

definition randomGradient :: "PerlinNoise \<Rightarrow> int \<Rightarrow> int \<Rightarrow> vec \<times> PerlinNoise" where
  "randomGradient p ix iy =
     (case gradients p (gradientKey ix iy) of
        Some g \<Rightarrow> (g, p)
      | None \<Rightarrow>
          (let angle = hashAngle (seed p) ix iy;
               gradient = (cos angle, sin angle)
           in (gradient, p\<lparr>gradients := (gradients p)(gradientKey ix iy \<mapsto> gradient)\<rparr>)))"

definition dotGridGradient ::
  "PerlinNoise \<Rightarrow> int \<Rightarrow> int \<Rightarrow> real \<Rightarrow> real \<Rightarrow> real \<times> PerlinNoise" where
  "dotGridGradient p ix iy x y =
     (let (gradient, p') = randomGradient p ix iy;
          dx = x - real_of_int ix;
          dy = y - real_of_int iy
      in (dx * fst gradient + dy * snd gradient, p'))"

definition interpolate :: "real \<Rightarrow> real \<Rightarrow> real \<Rightarrow> real" where
  "interpolate a0 a1 w = (a1 - a0) * (3 - w * 2) * w * w + a0"

definition noise :: "PerlinNoise \<Rightarrow> real \<Rightarrow> real \<Rightarrow> real \<times> PerlinNoise" where
  "noise p x y =
     (case memory p (x, y) of
        Some v \<Rightarrow> (v, p)
      | None \<Rightarrow>
          (let x0 = \<lfloor>x\<rfloor>; x1 = x0 + 1;
               y0 = \<lfloor>y\<rfloor>; y1 = y0 + 1;
               sx = x - real_of_int x0;
               sy = y - real_of_int y0;
               (n0, p1) = dotGridGradient p x0 y0 x y;
               (n1, p2) = dotGridGradient p1 x1 y0 x y;
               ix0 = interpolate n0 n1 sx;
               (n2, p3) = dotGridGradient p2 x0 y1 x y;
               (n3, p4) = dotGridGradient p3 x1 y1 x y;
               ix1 = interpolate n2 n3 sx;
               v = interpolate ix0 ix1 sy;
               normalized = (v + 1) / 2;
               r = max 0 (min 1 normalized)
           in (r, p4\<lparr>memory := (memory p4)((x, y) \<mapsto> r)\<rparr>)))"

text \<open>
  What the two methods compute when nothing is cached: the gradient of a lattice point and
  the sample at a point, as functions of the seed alone. The caches are correct when every
  entry holds the value of these functions (\<open>caches_ok\<close>).
\<close>

definition gradientAt :: "int \<Rightarrow> int \<Rightarrow> int \<Rightarrow> vec" where
  "gradientAt sd ix iy = (cos (hashAngle sd ix iy), sin (hashAngle sd ix iy))"

definition dotAt :: "int \<Rightarrow> int \<Rightarrow> int \<Rightarrow> real \<Rightarrow> real \<Rightarrow> real" where
  "dotAt sd ix iy x y =
     (x - real_of_int ix) * fst (gradientAt sd ix iy) + (y - real_of_int iy) * snd (gradientAt sd ix iy)"

definition noiseAt :: "int \<Rightarrow> real \<Rightarrow> real \<Rightarrow> real" where
  "noiseAt sd x y =
     (let x0 = \<lfloor>x\<rfloor>; y0 = \<lfloor>y\<rfloor>;
          sx = x - real_of_int x0;
          sy = y - real_of_int y0;
          ix0 = interpolate (dotAt sd x0 y0 x y) (dotAt sd (x0 + 1) y0 x y) sx;
          ix1 = interpolate (dotAt sd x0 (y0 + 1) x y) (dotAt sd (x0 + 1) (y0 + 1) x y) sx
      in max 0 (min 1 ((interpolate ix0 ix1 sy + 1) / 2)))"

definition caches_ok :: "PerlinNoise \<Rightarrow> bool" where
  "caches_ok p \<longleftrightarrow>
     (\<forall>ix iy g. gradients p (gradientKey ix iy) = Some g \<longrightarrow> g = gradientAt (seed p) ix iy) \<and>
     (\<forall>x y v. memory p (x, y) = Some v \<longrightarrow> v = noiseAt (seed p) x y)"

section \<open>Flora preferences and spawn chance\<close>

record TreePrefs =
  heightMin :: real
  heightMax :: real
  heightOptimal :: real
  soilMin :: real
  soilMax :: real
  soilOptimal :: real
  tempMin :: real
  tempMax :: real
  tempOptimal :: real

text \<open>\<open>Tree.types\<close>, in the order of the source.\<close>

definition Tree_types :: "string list" where
  "Tree_types = [''oak'', ''pine'', ''birch'', ''palm'', ''maple'']"

text \<open>The object literal \<open>treePreferences\<close> of \<open>calculateTreeSpawnChance\<close>: its own keys.\<close>

definition treePreferences :: "(string \<times> TreePrefs) list" where
  "treePreferences =
    [(''oak'', \<lparr>heightMin = 4/10, heightMax = 7/10, heightOptimal = 55/100,
               soilMin = 4/10, soilMax = 7/10, soilOptimal = 55/100,
               tempMin = 4/10, tempMax = 7/10, tempOptimal = 55/100\<rparr>),
     (''pine'', \<lparr>heightMin = 5/10, heightMax = 8/10, heightOptimal = 65/100,
                soilMin = 5/10, soilMax = 8/10, soilOptimal = 65/100,
                tempMin = 5/10, tempMax = 8/10, tempOptimal = 65/100\<rparr>),
     (''palm'', \<lparr>heightMin = 45/100, heightMax = 75/100, heightOptimal = 6/10,
                soilMin = 45/100, soilMax = 75/100, soilOptimal = 6/10,
                tempMin = 45/100, tempMax = 75/100, tempOptimal = 6/10\<rparr>),
     (''birch'', \<lparr>heightMin = 4/10, heightMax = 1, heightOptimal = 6/10,
                 soilMin = 2/10, soilMax = 6/10, soilOptimal = 4/10,
                 tempMin = 6/10, tempMax = 85/100, tempOptimal = 725/1000\<rparr>),
     (''maple'', \<lparr>heightMin = 6/10, heightMax = 85/100, heightOptimal = 6/10,
                 soilMin = 5/10, soilMax = 9/10, soilOptimal = 7/10,
                 tempMin = 1/10, tempMax = 4/10, tempOptimal = 25/100\<rparr>)]"

text \<open>
  A property read \<open>obj[key]\<close> on an object literal also finds the properties the literal
  inherits from \<open>Object.prototype\<close>. Each of them is an object or a function: truthy, and
  without any of the fields of a preference record.
\<close>

definition Object_prototype_keys :: "string list" where
  "Object_prototype_keys =
    [''constructor'', ''hasOwnProperty'', ''isPrototypeOf'', ''propertyIsEnumerable'',
     ''toLocaleString'', ''toString'', ''valueOf'', ''__proto__'',
     ''__defineGetter__'', ''__defineSetter__'', ''__lookupGetter__'', ''__lookupSetter__'']"

datatype 'a property = Own 'a | Inherited | Undefined

definition get_property :: "(string \<times> 'a) list \<Rightarrow> string \<Rightarrow> 'a property" where
  "get_property obj k =
     (case map_of obj k of
        Some v \<Rightarrow> Own v
      | None \<Rightarrow> if k \<in> set Object_prototype_keys then Inherited else Undefined)"

text \<open>\<open>Cell.calculatePropertyFitness\<close>.\<close>

definition calculatePropertyFitness :: "real \<Rightarrow> real \<Rightarrow> real \<Rightarrow> real \<Rightarrow> real" where
  "calculatePropertyFitness v mn mx optimal =
     (if v < mn \<or> v > mx then 0
      else (let distanceFromOptimal = \<bar>v - optimal\<bar>;
                maxDistance = max (optimal - mn) (mx - optimal);
                fitness = 1 - distanceFromOptimal / maxDistance
            in max 0 fitness))"

text \<open>
  \<open>Cell.calculateTreeSpawnChance\<close>: the returned number and what it wrote with
  \<open>console.warn\<close>. On an inherited property every field read is \<open>undefined\<close>, both
  comparisons of \<open>calculatePropertyFitness\<close> are false and its arithmetic is NaN.
\<close>

definition calculateTreeSpawnChance ::
  "real \<Rightarrow> real \<Rightarrow> real \<Rightarrow> string \<Rightarrow> jsnum \<times> string list" where
  "calculateTreeSpawnChance h soil temp treeType =
     (case get_property treePreferences treeType of
        Undefined \<Rightarrow> (Num 0, [''Unknown tree type: '' @ treeType])
      | Inherited \<Rightarrow> (NaN, [])
      | Own prefs \<Rightarrow>
          (let heightFitness =
                 calculatePropertyFitness h (heightMin prefs) (heightMax prefs) (heightOptimal prefs);
               soilFitness =
                 calculatePropertyFitness soil (soilMin prefs) (soilMax prefs) (soilOptimal prefs);
               tempFitness =
                 calculatePropertyFitness temp (tempMin prefs) (tempMax prefs) (tempOptimal prefs);
               combinedFitness = heightFitness * soilFitness * tempFitness;
               baseSpawnRate = 3/10
           in (Num (combinedFitness * baseSpawnRate), [])))"

text \<open>The comparison \<open>chance > 0\<close>: false on NaN.\<close>

fun js_positive :: "jsnum \<Rightarrow> bool" where
  "js_positive (Num c) = (0 < c)"
| "js_positive NaN = False"

fun num_of :: "jsnum \<Rightarrow> real" where
  "num_of (Num c) = c"
| "num_of NaN = 0"

text \<open>
  The first loop of \<open>Cell.spawnTreesHere\<close>, over a list of type names: the candidates with
  a positive chance, in the order met, and the warnings written on the way.
\<close>

fun collectTreeChances ::
  "real \<Rightarrow> real \<Rightarrow> real \<Rightarrow> string list \<Rightarrow> (string \<times> real) list \<times> string list" where
  "collectTreeChances h soil temp [] = ([], [])"
| "collectTreeChances h soil temp (treeType # rest) =
     (let (chance, warned) = calculateTreeSpawnChance h soil temp treeType;
          (treeChances, warned') = collectTreeChances h soil temp rest
      in ((if js_positive chance then [(treeType, num_of chance)] else []) @ treeChances,
          warned @ warned'))"

text \<open>\<open>treeChances.sort((a, b) => b.chance - a.chance)\<close>: a stable sort, highest first.\<close>

definition sortTreeChances :: "(string \<times> real) list \<Rightarrow> (string \<times> real) list" where
  "sortTreeChances treeChances = sort_key (\<lambda>t. - snd t) treeChances"

section \<open>Cells, entities and the object store\<close>

text \<open>
  Victor.js is a library outside the repository. Its \<open>length\<close> (alias \<open>magnitude\<close>) is the
  Euclidean norm, and \<open>normalize\<close> divides by the length, giving \<open>(1, 0)\<close> on the zero
  vector.
\<close>

definition Victor_length :: "vec \<Rightarrow> real" where
  "Victor_length v = sqrt (fst v * fst v + snd v * snd v)"

definition Victor_normalize :: "vec \<Rightarrow> vec" where
  "Victor_normalize v =
     (let l = Victor_length v in if l = 0 then (1, 0) else (fst v / l, snd v / l))"

definition Victor_multiplyScalar :: "vec \<Rightarrow> real \<Rightarrow> vec" where
  "Victor_multiplyScalar v k = (fst v * k, snd v * k)"

definition Victor_add :: "vec \<Rightarrow> vec \<Rightarrow> vec" where
  "Victor_add v w = (fst v + fst w, snd v + snd w)"

text \<open>
  A \<open>Cell\<close> object. Its constructor parameters \<open>x\<close>, \<open>y\<close> and \<open>cellSize\<close> and its field \<open>z\<close>
  are the fields \<open>cell_x\<close>, \<open>cell_y\<close>, \<open>cell_size\<close> and \<open>cell_z\<close>. \<open>entities\<close> holds
  references to entity objects. \<open>neighborsInRadius\<close> is \<open>undefined\<close> (\<open>None\<close>) until
  \<open>getNeighborsInRadius\<close> creates it; it maps a radius to an array of cell references.
\<close>

record Cell =
  cell_x :: int
  cell_y :: int
  cell_size :: real
  entities :: "nat set"
  worldX :: real
  worldY :: real
  soilFertility :: real
  height :: real
  temperature :: real
  cell_z :: real
  water :: bool
  beach :: bool
  frozen :: bool
  desert :: bool
  flowDirection :: vec
  flowDirectionCalculated :: bool
  neighborsInRadius :: "(int \<rightharpoonup> nat list) option"

text \<open>What an \<open>Entity\<close> object shows to the Grid: its position and its back-reference.\<close>

record Entity =
  position :: vec
  currentCell :: "nat option"

text \<open>
  The state of one program run: the fields of the \<open>Grid\<close> object (\<open>cellSize\<close>, the three
  \<open>noiseFrequencies\<close>, \<open>cells\<close> from key to cell reference, the three generators), the
  store of \<open>Cell\<close> objects and of \<open>Entity\<close> objects by reference, the values
  \<open>Math.random()\<close> returns (the \<open>randomCount\<close>-th call returns \<open>random randomCount\<close>), and
  the lines written to the console.
\<close>

record world =
  cellSize :: real
  freq_soilFertility :: real
  freq_height :: real
  freq_temperature :: real
  cells :: "string \<rightharpoonup> nat"
  soilNoiseGenerator :: PerlinNoise
  heightNoiseGenerator :: PerlinNoise
  temperatureNoiseGenerator :: PerlinNoise
  cellObjs :: "nat \<rightharpoonup> Cell"
  nextCell :: nat
  entityObjs :: "nat \<rightharpoonup> Entity"
  nextEntity :: nat
  random :: "nat \<Rightarrow> real"
  randomCount :: nat
  console :: "string list"

text \<open>\<open>new Grid(cellSize, noiseFrequencies, game)\<close>, in a program whose entity objects,
  random values and console are given.\<close>

definition Grid_new ::
  "real \<Rightarrow> real \<Rightarrow> real \<Rightarrow> real \<Rightarrow> (nat \<rightharpoonup> Entity) \<Rightarrow> nat \<Rightarrow> (nat \<Rightarrow> real) \<Rightarrow> world" where
  "Grid_new cs fs fh ft es ne rnd =
     \<lparr>cellSize = cs, freq_soilFertility = fs, freq_height = fh, freq_temperature = ft,
      cells = Map.empty,
      soilNoiseGenerator = PerlinNoise_new 123,
      heightNoiseGenerator = PerlinNoise_new 456,
      temperatureNoiseGenerator = PerlinNoise_new 789,
      cellObjs = Map.empty, nextCell = 0,
      entityObjs = es, nextEntity = ne,
      random = rnd, randomCount = 0, console = []\<rparr>"

definition Math_random :: "world \<Rightarrow> real \<times> world" where
  "Math_random s = (random s (randomCount s), s\<lparr>randomCount := Suc (randomCount s)\<rparr>)"

text \<open>The field assignments of the \<open>Cell\<close> constructor, from the three samples.\<close>

definition Cell_fields :: "int \<Rightarrow> int \<Rightarrow> real \<Rightarrow> real \<Rightarrow> real \<Rightarrow> real \<Rightarrow> Cell" where
  "Cell_fields x y cs soil h temp =
     \<lparr>cell_x = x, cell_y = y, cell_size = cs, entities = {},
      worldX = real_of_int x * cs, worldY = real_of_int y * cs,
      soilFertility = soil, height = h, temperature = temp, cell_z = 0,
      water = (h < 4/10),
      beach = (h > 4/10 \<and> h < 45/100),
      frozen = (temp < 3/10),
      desert = (temp > 7/10),
      flowDirection = (0, 0), flowDirectionCalculated = False,
      neighborsInRadius = None\<rparr>"

text \<open>\<open>Cell.addEntity\<close>, \<open>Cell.removeEntity\<close> and \<open>Cell.clear\<close> on the cell at a reference,
  and the assignment \<open>entity.currentCell = v\<close>.\<close>

definition Cell_addEntity :: "world \<Rightarrow> nat \<Rightarrow> nat \<Rightarrow> world option" where
  "Cell_addEntity s a e =
     (case cellObjs s a of
        None \<Rightarrow> None
      | Some c \<Rightarrow> Some (s\<lparr>cellObjs := (cellObjs s)(a \<mapsto> c\<lparr>entities := insert e (entities c)\<rparr>)\<rparr>))"

definition Cell_removeEntity :: "world \<Rightarrow> nat \<Rightarrow> nat \<Rightarrow> world option" where
  "Cell_removeEntity s a e =
     (case cellObjs s a of
        None \<Rightarrow> None
      | Some c \<Rightarrow> Some (s\<lparr>cellObjs := (cellObjs s)(a \<mapsto> c\<lparr>entities := entities c - {e}\<rparr>)\<rparr>))"

definition Cell_clear :: "Cell \<Rightarrow> Cell" where
  "Cell_clear c = c\<lparr>entities := {}\<rparr>"

definition set_currentCell :: "world \<Rightarrow> nat \<Rightarrow> nat option \<Rightarrow> world option" where
  "set_currentCell s e v =
     (case entityObjs s e of
        None \<Rightarrow> None
      | Some en \<Rightarrow> Some (s\<lparr>entityObjs := (entityObjs s)(e \<mapsto> en\<lparr>currentCell := v\<rparr>)\<rparr>))"

section \<open>Grid: lazy cells and the entity index\<close>

text \<open>
  \<open>Grid.getCell\<close> runs the \<open>Cell\<close> constructor, which calls \<open>spawnTreesHere\<close>, which calls
  \<open>game.createTree\<close>, whose \<open>Entity\<close> constructor calls \<open>grid.addEntity\<close> and so
  \<open>Grid.getCell\<close> again, before the outer call has stored its cell. The functions on this
  path take the inner \<open>getCell\<close> as a parameter \<open>gc\<close>; \<open>getCell\<close> itself closes the
  recursion, counting the constructor calls that may still nest (a deeper nesting is the
  engine's stack overflow, \<open>None\<close>).
\<close>

type_synonym getcell = "world \<Rightarrow> int \<Rightarrow> int \<Rightarrow> (nat \<times> world) option"

definition getCellAtWorldPos_with :: "getcell \<Rightarrow> world \<Rightarrow> real \<Rightarrow> real \<Rightarrow> (nat \<times> world) option" where
  "getCellAtWorldPos_with gc s wx wy =
     (let (cellX, cellY) = worldToCell (cellSize s) wx wy in gc s cellX cellY)"

definition Grid_addEntity_with :: "getcell \<Rightarrow> world \<Rightarrow> nat \<Rightarrow> world option" where
  "Grid_addEntity_with gc s e =
     (case entityObjs s e of
        None \<Rightarrow> None
      | Some en \<Rightarrow>
          (case getCellAtWorldPos_with gc s (fst (position en)) (snd (position en)) of
             None \<Rightarrow> None
           | Some (cell, s1) \<Rightarrow>
               (case Cell_addEntity s1 cell e of
                  None \<Rightarrow> None
                | Some s2 \<Rightarrow> set_currentCell s2 e (Some cell))))"

text \<open>
  The \<open>Entity\<close> constructor, as far as the Grid sees it: the new object at its position,
  with no current cell; \<open>Entity.generateId\<close> draws one random number; then
  \<open>this.game.grid.addEntity(this)\<close>. \<open>Game.createTree\<close> is \<open>new Tree(x, y, this, treeType)\<close>,
  whose constructor starts with the \<open>Entity\<close> constructor and does not touch the Grid again.
\<close>

definition Entity_new_with :: "getcell \<Rightarrow> world \<Rightarrow> real \<Rightarrow> real \<Rightarrow> (nat \<times> world) option" where
  "Entity_new_with gc s x y =
     (let e = nextEntity s;
          s1 = s\<lparr>entityObjs := (entityObjs s)(e \<mapsto> \<lparr>position = (x, y), currentCell = None\<rparr>),
                 nextEntity := Suc e\<rparr>;
          (r, s2) = Math_random s1
      in (case Grid_addEntity_with gc s2 e of None \<Rightarrow> None | Some s3 \<Rightarrow> Some (e, s3)))"

definition Game_createTree_with ::
  "getcell \<Rightarrow> world \<Rightarrow> real \<Rightarrow> real \<Rightarrow> string \<Rightarrow> (nat \<times> world) option" where
  "Game_createTree_with gc s x y treeType = Entity_new_with gc s x y"

text \<open>The second loop of \<open>Cell.spawnTreesHere\<close>, for the cell at reference \<open>this\<close>.\<close>

fun spawnLoop ::
  "getcell \<Rightarrow> nat \<Rightarrow> (string \<times> real) list \<Rightarrow> nat \<Rightarrow> world \<Rightarrow> world option" where
  "spawnLoop gc this [] treesSpawned s = Some s"
| "spawnLoop gc this (treeData # rest) treesSpawned s =
     (if treesSpawned \<ge> 2 then Some s
      else
        (let (r, s1) = Math_random s in
         if r < snd treeData * 1 then
           (case cellObjs s1 this of
              None \<Rightarrow> None
            | Some c \<Rightarrow>
                (let (rx, s2) = Math_random s1;
                     (ry, s3) = Math_random s2
                 in (case Game_createTree_with gc s3
                            (worldX c + cell_size c * rx) (worldY c + cell_size c * ry)
                            (fst treeData) of
                       None \<Rightarrow> None
                     | Some (tree, s4) \<Rightarrow> spawnLoop gc this rest (Suc treesSpawned) s4)))
         else spawnLoop gc this rest treesSpawned s1))"

definition spawnTreesHere_with :: "getcell \<Rightarrow> world \<Rightarrow> nat \<Rightarrow> world option" where
  "spawnTreesHere_with gc s this =
     (case cellObjs s this of
        None \<Rightarrow> None
      | Some c \<Rightarrow>
          if water c then Some s
          else
            (let (treeChances, warned) =
                   collectTreeChances (height c) (soilFertility c) (temperature c) Tree_types;
                 s1 = s\<lparr>console := console s @ warned\<rparr>
             in if treeChances = [] then Some s1
                else spawnLoop gc this (sortTreeChances treeChances) 0 s1))"

text \<open>\<open>new Cell(x, y, this.cellSize, this)\<close>: the reference of the new object and the state
  after its constructor.\<close>

definition Cell_new_with :: "getcell \<Rightarrow> world \<Rightarrow> int \<Rightarrow> int \<Rightarrow> (nat \<times> world) option" where
  "Cell_new_with gc s x y =
     (let this = nextCell s;
          (soil, g1) = noise (soilNoiseGenerator s)
                         (real_of_int x * freq_soilFertility s) (real_of_int y * freq_soilFertility s);
          (h, g2) = noise (heightNoiseGenerator s)
                      (real_of_int x * freq_height s) (real_of_int y * freq_height s);
          (temp, g3) = noise (temperatureNoiseGenerator s)
                         (real_of_int x * freq_temperature s) (real_of_int y * freq_temperature s);
          s1 = s\<lparr>soilNoiseGenerator := g1, heightNoiseGenerator := g2,
                 temperatureNoiseGenerator := g3,
                 cellObjs := (cellObjs s)(this \<mapsto> Cell_fields x y (cellSize s) soil h temp),
                 nextCell := Suc this\<rparr>
      in (case spawnTreesHere_with gc s1 this of None \<Rightarrow> None | Some s2 \<Rightarrow> Some (this, s2)))"

fun getCell :: "nat \<Rightarrow> world \<Rightarrow> int \<Rightarrow> int \<Rightarrow> (nat \<times> world) option" where
  "getCell 0 s cellX cellY =
     (case cells s (getCellKey cellX cellY) of
        Some cell \<Rightarrow> Some (cell, s)
      | None \<Rightarrow> None)"
| "getCell (Suc depth) s cellX cellY =
     (case cells s (getCellKey cellX cellY) of
        Some cell \<Rightarrow> Some (cell, s)
      | None \<Rightarrow>
          (case Cell_new_with (getCell depth) s cellX cellY of
             None \<Rightarrow> None
           | Some (cell, s1) \<Rightarrow>
               Some (cell, s1\<lparr>cells := (cells s1)(getCellKey cellX cellY \<mapsto> cell)\<rparr>)))"

definition getCellAtWorldPos :: "nat \<Rightarrow> world \<Rightarrow> real \<Rightarrow> real \<Rightarrow> (nat \<times> world) option" where
  "getCellAtWorldPos depth s wx wy = getCellAtWorldPos_with (getCell depth) s wx wy"

definition Grid_addEntity :: "nat \<Rightarrow> world \<Rightarrow> nat \<Rightarrow> world option" where
  "Grid_addEntity depth s e = Grid_addEntity_with (getCell depth) s e"

definition Grid_removeEntity :: "world \<Rightarrow> nat \<Rightarrow> world option" where
  "Grid_removeEntity s e =
     (case entityObjs s e of
        None \<Rightarrow> None
      | Some en \<Rightarrow>
          (case currentCell en of
             None \<Rightarrow> Some s
           | Some cell \<Rightarrow>
               (case Cell_removeEntity s cell e of
                  None \<Rightarrow> None
                | Some s1 \<Rightarrow> set_currentCell s1 e None)))"

definition Grid_updateEntity :: "nat \<Rightarrow> world \<Rightarrow> nat \<Rightarrow> world option" where
  "Grid_updateEntity depth s e =
     (case entityObjs s e of
        None \<Rightarrow> None
      | Some en \<Rightarrow>
          (case getCellAtWorldPos depth s (fst (position en)) (snd (position en)) of
             None \<Rightarrow> None
           | Some (newCell, s1) \<Rightarrow>
               (case entityObjs s1 e of
                  None \<Rightarrow> None
                | Some en1 \<Rightarrow>
                    if currentCell en1 \<noteq> Some newCell then
                      (case (case currentCell en1 of
                               None \<Rightarrow> Some s1
                             | Some old \<Rightarrow> Cell_removeEntity s1 old e) of
                         None \<Rightarrow> None
                       | Some s2 \<Rightarrow>
                           (case Cell_addEntity s2 newCell e of
                              None \<Rightarrow> None
                            | Some s3 \<Rightarrow> set_currentCell s3 e (Some newCell)))
                    else Some s1)))"

text \<open>\<open>Grid.clear\<close>: \<open>Cell.clear\<close> on every value of \<open>cells\<close>, then a fresh empty map.\<close>

definition Grid_clear :: "world \<Rightarrow> world" where
  "Grid_clear s =
     s\<lparr>cellObjs := (\<lambda>a. if a \<in> ran (cells s) then map_option Cell_clear (cellObjs s a)
                          else cellObjs s a),
       cells := Map.empty\<rparr>"

text \<open>
  A caller of the index: the entity is at a position (its owner moved it there) when
  \<open>addEntity\<close>, \<open>updateEntity\<close> or \<open>removeEntity\<close> is called on it.
\<close>

datatype grid_call = AddEntity nat real real | UpdateEntity nat real real | RemoveEntity nat real real

definition Entity_moveTo :: "world \<Rightarrow> nat \<Rightarrow> real \<Rightarrow> real \<Rightarrow> world option" where
  "Entity_moveTo s e x y =
     (case entityObjs s e of
        None \<Rightarrow> None
      | Some en \<Rightarrow> Some (s\<lparr>entityObjs := (entityObjs s)(e \<mapsto> en\<lparr>position := (x, y)\<rparr>)\<rparr>))"

fun grid_step :: "nat \<Rightarrow> world \<Rightarrow> grid_call \<Rightarrow> world option" where
  "grid_step depth s (AddEntity e x y) =
     (case Entity_moveTo s e x y of None \<Rightarrow> None | Some s1 \<Rightarrow> Grid_addEntity depth s1 e)"
| "grid_step depth s (UpdateEntity e x y) =
     (case Entity_moveTo s e x y of None \<Rightarrow> None | Some s1 \<Rightarrow> Grid_updateEntity depth s1 e)"
| "grid_step depth s (RemoveEntity e x y) =
     (case Entity_moveTo s e x y of None \<Rightarrow> None | Some s1 \<Rightarrow> Grid_removeEntity s1 e)"


section \<open>Queries\<close>

text \<open>The two nested \<open>for\<close> loops over a rectangle of cell coordinates, in the order the
  loops visit them.\<close>

definition cellRange :: "int \<Rightarrow> int \<Rightarrow> int \<Rightarrow> int \<Rightarrow> (int \<times> int) list" where
  "cellRange minCellX maxCellX minCellY maxCellY =
     concat (map (\<lambda>cellX. map (\<lambda>cellY. (cellX, cellY)) [minCellY..maxCellY]) [minCellX..maxCellX])"

text \<open>One pass of the loop body: the entities of the cell stored under the key, if there is
  one, that pass the test, added to the result set.\<close>

definition visitCell :: "world \<Rightarrow> (Entity \<Rightarrow> bool) \<Rightarrow> nat set \<Rightarrow> int \<times> int \<Rightarrow> nat set" where
  "visitCell s keep found xy =
     (case cells s (getCellKey (fst xy) (snd xy)) of
        None \<Rightarrow> found
      | Some cell \<Rightarrow>
          (case cellObjs s cell of
             None \<Rightarrow> found
           | Some c \<Rightarrow>
               found \<union> {e \<in> entities c. case entityObjs s e of None \<Rightarrow> False | Some en \<Rightarrow> keep en}))"

definition withinRadius :: "real \<Rightarrow> real \<Rightarrow> real \<Rightarrow> Entity \<Rightarrow> bool" where
  "withinRadius centerX centerY radius en =
     (let dx = fst (position en) - centerX;
          dy = snd (position en) - centerY;
          distance = sqrt (dx * dx + dy * dy)
      in distance \<le> radius)"

definition withinArea :: "real \<Rightarrow> real \<Rightarrow> real \<Rightarrow> real \<Rightarrow> Entity \<Rightarrow> bool" where
  "withinArea x y width h en =
     (fst (position en) \<ge> x \<and> fst (position en) \<le> x + width \<and>
      snd (position en) \<ge> y \<and> snd (position en) \<le> y + h)"

text \<open>\<open>Grid.getEntitiesInRadius\<close> and \<open>Grid.getEntitiesInArea\<close>: the returned set and the
  state after the call.\<close>

definition getEntitiesInRadius :: "world \<Rightarrow> real \<Rightarrow> real \<Rightarrow> real \<Rightarrow> nat set \<times> world" where
  "getEntitiesInRadius s centerX centerY radius =
     (let minCellX = \<lfloor>(centerX - radius) / cellSize s\<rfloor>;
          maxCellX = \<lfloor>(centerX + radius) / cellSize s\<rfloor>;
          minCellY = \<lfloor>(centerY - radius) / cellSize s\<rfloor>;
          maxCellY = \<lfloor>(centerY + radius) / cellSize s\<rfloor>
      in (foldl (visitCell s (withinRadius centerX centerY radius)) {}
            (cellRange minCellX maxCellX minCellY maxCellY), s))"

definition getEntitiesInArea :: "world \<Rightarrow> real \<Rightarrow> real \<Rightarrow> real \<Rightarrow> real \<Rightarrow> nat set \<times> world" where
  "getEntitiesInArea s x y width h =
     (let minCellX = \<lfloor>x / cellSize s\<rfloor>;
          maxCellX = \<lfloor>(x + width) / cellSize s\<rfloor>;
          minCellY = \<lfloor>y / cellSize s\<rfloor>;
          maxCellY = \<lfloor>(y + h) / cellSize s\<rfloor>
      in (foldl (visitCell s (withinArea x y width h)) {}
            (cellRange minCellX maxCellX minCellY maxCellY), s))"

text \<open>The loops of \<open>Cell.getNeighborsInRadius\<close>: the cells stored in the Grid's map at the
  offsets of the square, the centre skipped, in loop order.\<close>

definition ringNeighbors :: "world \<Rightarrow> Cell \<Rightarrow> int \<Rightarrow> nat list" where
  "ringNeighbors s c radius =
     concat (map (\<lambda>dx. concat (map (\<lambda>dy.
         if dx = 0 \<and> dy = 0 then []
         else (case cells s (getCellKey (cell_x c + dx) (cell_y c + dy)) of
                 None \<Rightarrow> []
               | Some neighbor \<Rightarrow> [neighbor]))
       [- radius..radius])) [- radius..radius])"

text \<open>\<open>Cell.getNeighborsInRadius\<close> on the cell at reference \<open>this\<close>. A cached array, even an
  empty one, is truthy and is returned as it is.\<close>

definition getNeighborsInRadius :: "world \<Rightarrow> nat \<Rightarrow> int \<Rightarrow> (nat list \<times> world) option" where
  "getNeighborsInRadius s this radius =
     (case cellObjs s this of
        None \<Rightarrow> None
      | Some c \<Rightarrow>
          (let cache = (case neighborsInRadius c of None \<Rightarrow> Map.empty | Some m \<Rightarrow> m)
           in (case cache radius of
                 Some neighbors \<Rightarrow>
                   Some (neighbors,
                         s\<lparr>cellObjs := (cellObjs s)(this \<mapsto> c\<lparr>neighborsInRadius := Some cache\<rparr>)\<rparr>)
               | None \<Rightarrow>
                   (let neighbors = ringNeighbors s c radius
                    in Some (neighbors,
                             s\<lparr>cellObjs := (cellObjs s)(this \<mapsto>
                                  c\<lparr>neighborsInRadius := Some (cache(radius \<mapsto> neighbors))\<rparr>)\<rparr>)))))"

text \<open>The loop of \<open>Cell.calculateFlowDirection\<close> over the neighbour array.\<close>

fun flowLoop :: "world \<Rightarrow> Cell \<Rightarrow> nat list \<Rightarrow> vec \<Rightarrow> vec option" where
  "flowLoop s c [] flowVector = Some flowVector"
| "flowLoop s c (neighbor # rest) flowVector =
     (case cellObjs s neighbor of
        None \<Rightarrow> None
      | Some nb \<Rightarrow>
          (let heightDifference = height c - height nb;
               dx = cell_x nb - cell_x c;
               dy = cell_y nb - cell_y c;
               directionToNeighbor = Victor_normalize (real_of_int dx, real_of_int dy);
               flowContribution = Victor_multiplyScalar directionToNeighbor heightDifference
           in flowLoop s c rest (Victor_add flowVector flowContribution)))"

definition calculateFlowDirection :: "world \<Rightarrow> nat \<Rightarrow> (vec \<times> world) option" where
  "calculateFlowDirection s this =
     (case getNeighborsInRadius s this 3 of
        None \<Rightarrow> None
      | Some (neighbors, s1) \<Rightarrow>
          (case cellObjs s1 this of
             None \<Rightarrow> None
           | Some c \<Rightarrow>
               (case flowLoop s1 c neighbors (0, 0) of
                  None \<Rightarrow> None
                | Some flowVector \<Rightarrow>
                    (let fd = (if Victor_length flowVector > 0 then Victor_normalize flowVector
                               else (0, 0))
                     in Some (fd, s1\<lparr>cellObjs := (cellObjs s1)(this \<mapsto> c\<lparr>flowDirection := fd\<rparr>)\<rparr>)))))"

definition getFlowDirection :: "world \<Rightarrow> nat \<Rightarrow> (vec \<times> world) option" where
  "getFlowDirection s this =
     (case cellObjs s this of
        None \<Rightarrow> None
      | Some c \<Rightarrow>
          if \<not> flowDirectionCalculated c then
            (case calculateFlowDirection s this of
               None \<Rightarrow> None
             | Some (fd, s1) \<Rightarrow>
                 (case cellObjs s1 this of
                    None \<Rightarrow> None
                  | Some c1 \<Rightarrow>
                      Some (fd, s1\<lparr>cellObjs := (cellObjs s1)(this \<mapsto>
                                   c1\<lparr>flowDirection := fd, flowDirectionCalculated := True\<rparr>)\<rparr>)))
          else Some (flowDirection c, s))"

definition recalculateFlowDirection :: "world \<Rightarrow> nat \<Rightarrow> world option" where
  "recalculateFlowDirection s this =
     (case calculateFlowDirection s this of
        None \<Rightarrow> None
      | Some (fd, s1) \<Rightarrow>
          (case cellObjs s1 this of
             None \<Rightarrow> None
           | Some c1 \<Rightarrow>
               Some (s1\<lparr>cellObjs := (cellObjs s1)(this \<mapsto>
                        c1\<lparr>flowDirection := fd, flowDirectionCalculated := True\<rparr>)\<rparr>)))"

section \<open>Consistency of the index\<close>

text \<open>The index is consistent when every tracked entity is a member of the cell that the
  Grid's map holds for the entity's position.\<close>

definition index_consistent :: "world \<Rightarrow> bool" where
  "index_consistent s \<longleftrightarrow>
     (\<forall>e en. entityObjs s e = Some en \<longrightarrow> currentCell en \<noteq> None \<longrightarrow>
        (\<exists>a c. cells s (getCellKey (fst (worldToCell (cellSize s) (fst (position en)) (snd (position en))))
                                    (snd (worldToCell (cellSize s) (fst (position en)) (snd (position en)))))
                  = Some a \<and>
               cellObjs s a = Some c \<and> e \<in> entities c))"

section \<open>Invariants of the store\<close>

text \<open>
  \<open>map_ok\<close>: every entry of the Grid's map refers to a cell object whose coordinates give
  the entry's key. \<open>alloc_ok\<close>: references in use lie below the next fresh ones.
\<close>

definition map_ok :: "world \<Rightarrow> bool" where
  "map_ok s \<longleftrightarrow>
     (\<forall>k a. cells s k = Some a \<longrightarrow>
        (\<exists>c. cellObjs s a = Some c \<and> k = getCellKey (cell_x c) (cell_y c)))"

definition alloc_ok :: "world \<Rightarrow> bool" where
  "alloc_ok s \<longleftrightarrow>
     (\<forall>a c. cellObjs s a = Some c \<longrightarrow> a < nextCell s) \<and>
     (\<forall>e en. entityObjs s e = Some en \<longrightarrow> e < nextEntity s)"

text \<open>
  The terrain of the cell at given coordinates as a function of the configuration alone:
  the cell the constructor builds from the three noise functions with the seeds of the
  \<open>Grid\<close> constructor. \<open>Cell_terrain\<close> resets the fields of a cell that change after
  construction. \<open>terrain_ok\<close>: the three generators have their seeds and correct caches,
  and every cell object has the terrain of its coordinates.
\<close>

definition cellAt :: "real \<Rightarrow> real \<Rightarrow> real \<Rightarrow> real \<Rightarrow> int \<Rightarrow> int \<Rightarrow> Cell" where
  "cellAt cs fs fh ft x y =
     Cell_fields x y cs
       (noiseAt 123 (real_of_int x * fs) (real_of_int y * fs))
       (noiseAt 456 (real_of_int x * fh) (real_of_int y * fh))
       (noiseAt 789 (real_of_int x * ft) (real_of_int y * ft))"

definition Cell_terrain :: "Cell \<Rightarrow> Cell" where
  "Cell_terrain c =
     c\<lparr>entities := {}, flowDirection := (0, 0), flowDirectionCalculated := False,
       neighborsInRadius := None\<rparr>"

definition terrain_ok :: "world \<Rightarrow> bool" where
  "terrain_ok s \<longleftrightarrow>
     caches_ok (soilNoiseGenerator s) \<and> seed (soilNoiseGenerator s) = 123 \<and>
     caches_ok (heightNoiseGenerator s) \<and> seed (heightNoiseGenerator s) = 456 \<and>
     caches_ok (temperatureNoiseGenerator s) \<and> seed (temperatureNoiseGenerator s) = 789 \<and>
     (\<forall>a c. cellObjs s a = Some c \<longrightarrow>
        Cell_terrain c =
          cellAt (cellSize s) (freq_soilFertility s) (freq_height s) (freq_temperature s)
            (cell_x c) (cell_y c))"

definition sound :: "world \<Rightarrow> bool" where
  "sound s \<longleftrightarrow> map_ok s \<and> alloc_ok s \<and> terrain_ok s"

text \<open>
  \<open>index_ok\<close>: an entity with a current cell is a member of that cell's set, and a member
  of a cell's set has that cell as its current cell. \<open>positioned s e\<close>: the current cell of
  \<open>e\<close>, if any, has the cell coordinates of the position of \<open>e\<close>.
\<close>

definition index_ok :: "world \<Rightarrow> bool" where
  "index_ok s \<longleftrightarrow>
     (\<forall>e en a. entityObjs s e = Some en \<longrightarrow> currentCell en = Some a \<longrightarrow>
        (\<exists>c. cellObjs s a = Some c \<and> e \<in> entities c)) \<and>
     (\<forall>a c e. cellObjs s a = Some c \<longrightarrow> e \<in> entities c \<longrightarrow>
        (\<exists>en. entityObjs s e = Some en \<and> currentCell en = Some a))"

definition positioned :: "world \<Rightarrow> nat \<Rightarrow> bool" where
  "positioned s e \<longleftrightarrow>
     (\<forall>en a c. entityObjs s e = Some en \<longrightarrow> currentCell en = Some a \<longrightarrow> cellObjs s a = Some c \<longrightarrow>
        (cell_x c, cell_y c) = worldToCell (cellSize s) (fst (position en)) (snd (position en)))"

definition pos_kept :: "world \<Rightarrow> world \<Rightarrow> bool" where
  "pos_kept s s' \<longleftrightarrow> (\<forall>e. (entityObjs s e \<noteq> None \<longrightarrow> positioned s e) \<longrightarrow> positioned s' e)"

text \<open>
  \<open>frame E s s'\<close>: what a call leaves alone. The configuration and the random values are
  the same; the entity objects of \<open>s\<close> outside \<open>E\<close> are unchanged; the map has only gained
  entries; a cell object of \<open>s\<close> is unchanged but for its entity set, in which the
  entities of \<open>s\<close> outside \<open>E\<close> are as before.
\<close>

definition frame :: "nat set \<Rightarrow> world \<Rightarrow> world \<Rightarrow> bool" where
  "frame E s s' \<longleftrightarrow>
     cellSize s' = cellSize s \<and> freq_soilFertility s' = freq_soilFertility s \<and>
     freq_height s' = freq_height s \<and> freq_temperature s' = freq_temperature s \<and>
     random s' = random s \<and>
     (\<forall>e en. entityObjs s e = Some en \<longrightarrow>
        (\<exists>en'. entityObjs s' e = Some en' \<and> (e \<notin> E \<longrightarrow> en' = en))) \<and>
     (\<forall>k a. cells s k = Some a \<longrightarrow> cells s' k = Some a) \<and>
     (\<forall>a c. cellObjs s a = Some c \<longrightarrow>
        (\<exists>c'. cellObjs s' a = Some c' \<and> c'\<lparr>entities := {}\<rparr> = c\<lparr>entities := {}\<rparr> \<and>
              (\<forall>e. entityObjs s e \<noteq> None \<longrightarrow> e \<notin> E \<longrightarrow> (e \<in> entities c' \<longleftrightarrow> e \<in> entities c))))"

definition step_ok :: "world \<Rightarrow> world \<Rightarrow> bool" where
  "step_ok s s' \<longleftrightarrow>
     sound s' \<and> frame {} s s' \<and> (index_ok s \<longrightarrow> index_ok s' \<and> pos_kept s s')"

text \<open>The contract of a \<open>getCell\<close> passed down the constructor path.\<close>

definition gc_ok :: "getcell \<Rightarrow> bool" where
  "gc_ok gc \<longleftrightarrow>
     (\<forall>s x y a s'. sound s \<longrightarrow> gc s x y = Some (a, s') \<longrightarrow>
        step_ok s s' \<and> cells s' (getCellKey x y) = Some a)"

section \<open>Programs over the interface\<close>

text \<open>
  The calls a program can make on the Grid, its cells and its entities. \<open>api_run\<close> makes a
  list of calls in order, dropping the values they return; a state is \<open>reachable\<close> for a
  configuration when some program reaches it from the \<open>Grid\<close> constructor.
\<close>

definition Entity_new :: "nat \<Rightarrow> world \<Rightarrow> real \<Rightarrow> real \<Rightarrow> (nat \<times> world) option" where
  "Entity_new depth s x y = Entity_new_with (getCell depth) s x y"

datatype api_call =
    GetCell int int
  | GetCellAtWorldPos real real
  | IndexCall grid_call
  | Clear
  | NewEntity real real
  | GetNeighborsInRadius nat int
  | GetFlowDirection nat
  | RecalculateFlowDirection nat
  | GetEntitiesInRadius real real real
  | GetEntitiesInArea real real real real

fun api_step :: "nat \<Rightarrow> world \<Rightarrow> api_call \<Rightarrow> world option" where
  "api_step depth s (GetCell x y) = map_option snd (getCell depth s x y)"
| "api_step depth s (GetCellAtWorldPos wx wy) = map_option snd (getCellAtWorldPos depth s wx wy)"
| "api_step depth s (IndexCall c) = grid_step depth s c"
| "api_step depth s Clear = Some (Grid_clear s)"
| "api_step depth s (NewEntity x y) = map_option snd (Entity_new depth s x y)"
| "api_step depth s (GetNeighborsInRadius this radius) =
     map_option snd (getNeighborsInRadius s this radius)"
| "api_step depth s (GetFlowDirection this) = map_option snd (getFlowDirection s this)"
| "api_step depth s (RecalculateFlowDirection this) = recalculateFlowDirection s this"
| "api_step depth s (GetEntitiesInRadius cx cy r) = Some (snd (getEntitiesInRadius s cx cy r))"
| "api_step depth s (GetEntitiesInArea x y w h) = Some (snd (getEntitiesInArea s x y w h))"

fun api_run :: "nat \<Rightarrow> world \<Rightarrow> api_call list \<Rightarrow> world option" where
  "api_run depth s [] = Some s"
| "api_run depth s (c # cs) =
     (case api_step depth s c of None \<Rightarrow> None | Some s1 \<Rightarrow> api_run depth s1 cs)"

definition reachable :: "real \<Rightarrow> real \<Rightarrow> real \<Rightarrow> real \<Rightarrow> world \<Rightarrow> bool" where
  "reachable cs fs fh ft s \<longleftrightarrow>
     (\<exists>es ne rnd depth calls.
        (\<forall>e en. es e = Some en \<longrightarrow> e < ne) \<and>
        api_run depth (Grid_new cs fs fh ft es ne rnd) calls = Some s)"

definition config :: "world \<Rightarrow> real \<times> real \<times> real \<times> real" where
  "config s = (cellSize s, freq_soilFertility s, freq_height s, freq_temperature s)"

section \<open>Example programs\<close>

text \<open>A Grid with cell size 50 and all three frequencies 1, in a program whose random
  numbers are all one half, with no entity objects yet.\<close>

definition example_grid :: world where
  "example_grid = Grid_new 50 1 1 1 Map.empty 0 (\<lambda>i. 1/2)"

text \<open>A Grid of the same configuration in another program: other random numbers, and one
  entity object, not yet tracked.\<close>

definition other_grid :: world where
  "other_grid = Grid_new 50 1 1 1 [0 \<mapsto> \<lparr>position = (3, 4), currentCell = None\<rparr>] 1 (\<lambda>i. 9/10)"

text \<open>The cell object a call of \<open>getCell\<close> returned, if the call returned.\<close>

definition returned_cell :: "(nat \<times> world) option \<Rightarrow> Cell option" where
  "returned_cell r = (case r of None \<Rightarrow> None | Some (a, s) \<Rightarrow> cellObjs s a)"

section \<open>The index invariant\<close>



text \<open>The entities a cell object holds (none, at a reference without an object).\<close>

definition members :: "world \<Rightarrow> nat \<Rightarrow> nat set" where
  "members s a = (case cellObjs s a of None \<Rightarrow> {} | Some c \<Rightarrow> entities c)"

text \<open>The invariant the index calls keep: a sound store, a consistent index, every entity
  in place.\<close>

definition tracked_ok :: "world \<Rightarrow> bool" where
  "tracked_ok s \<longleftrightarrow> sound s \<and> index_ok s \<and> (\<forall>e. positioned s e)"

text \<open>No roll of \<open>spawnTreesHere\<close> can succeed from now on: every random number still to
  come is at least 0.3, and a spawn chance is at most 0.3.\<close>

definition quiet :: "world \<Rightarrow> bool" where
  "quiet s \<longleftrightarrow> (\<forall>i \<ge> randomCount s. 3/10 \<le> random s i)"

text \<open>A Grid of the same configuration in a program whose first random number is 0.05 and
  whose later ones are one half: the first roll of the first cell succeeds.\<close>

definition spawning_grid :: world where
  "spawning_grid = Grid_new 50 1 1 1 Map.empty 0 (\<lambda>i. if i = 0 then 1/20 else 1/2)"

section \<open>Neighbours as the specification words them\<close>

text \<open>
  The cells present in the Grid's map whose Chebyshev distance from the cell is at most
  the radius, the cell's own coordinates left out; and the list cached on a cell for a
  radius, if any.
\<close>

definition neighbors_present :: "world \<Rightarrow> Cell \<Rightarrow> int \<Rightarrow> nat set" where
  "neighbors_present s c radius =
     {a. \<exists>dx dy. \<bar>dx\<bar> \<le> radius \<and> \<bar>dy\<bar> \<le> radius \<and> \<not> (dx = 0 \<and> dy = 0) \<and>
            cells s (getCellKey (cell_x c + dx) (cell_y c + dy)) = Some a}"

definition cachedNeighbors :: "Cell \<Rightarrow> int \<Rightarrow> nat list option" where
  "cachedNeighbors c radius = (case neighborsInRadius c of None \<Rightarrow> None | Some m \<Rightarrow> m radius)"

section \<open>The flow direction as the specification words it\<close>

text \<open>
  The unit direction vector from a cell to a neighbour, the contribution of the neighbour
  (that vector scaled by this cell's height minus the neighbour's), the sum of the
  contributions of the neighbours present in the Grid's map within Chebyshev radius 3,
  and its normalization, the zero vector when the sum has zero magnitude.
\<close>

definition unitDirection :: "Cell \<Rightarrow> Cell \<Rightarrow> vec" where
  "unitDirection c nb =
     (let dx = real_of_int (cell_x nb - cell_x c);
          dy = real_of_int (cell_y nb - cell_y c);
          l = sqrt (dx * dx + dy * dy)
      in (dx / l, dy / l))"

definition flowContribution :: "Cell \<Rightarrow> Cell \<Rightarrow> vec" where
  "flowContribution c nb =
     (fst (unitDirection c nb) * (height c - height nb),
      snd (unitDirection c nb) * (height c - height nb))"

definition flowSum :: "world \<Rightarrow> Cell \<Rightarrow> vec" where
  "flowSum s c =
     (\<Sum>a\<in>neighbors_present s c 3. fst (flowContribution c (the (cellObjs s a))),
      \<Sum>a\<in>neighbors_present s c 3. snd (flowContribution c (the (cellObjs s a))))"

definition flowSpec :: "world \<Rightarrow> Cell \<Rightarrow> vec" where
  "flowSpec s c =
     (let v = flowSum s c;
          l = sqrt (fst v * fst v + snd v * snd v)
      in if l = 0 then (0, 0) else (fst v / l, snd v / l))"

text \<open>A Grid with cell size 50, soil and temperature frequency 1 and height frequency one
  half, in a program whose random numbers are all one half.\<close>

definition sloped_grid :: world where
  "sloped_grid = Grid_new 50 1 (1/2) 1 Map.empty 0 (\<lambda>i. 1/2)"

section \<open>Keys are one-to-one\<close>

lemma digit_char_inj: "a < 10 \<Longrightarrow> b < 10 \<Longrightarrow> digit_char a = digit_char b \<Longrightarrow> a = b"
proof -
  have d: "distinct ''0123456789''" by simp
  assume "a < 10" "b < 10" "digit_char a = digit_char b"
  then show ?thesis
    using nth_eq_iff_index_eq[OF d, of a b] by (simp add: digit_char_def)
qed

lemma digit_char_set: "d < 10 \<Longrightarrow> digit_char d \<in> set ''0123456789''"
  unfolding digit_char_def by (rule nth_mem) simp

lemma digits_nonempty: "digits n \<noteq> []"
  by (subst digits.simps) simp

lemma digits_set: "set (digits n) \<subseteq> set ''0123456789''"
proof (induction n rule: digits.induct)
  case (1 n)
  show ?case
  proof (cases "n < 10")
    case True
    then show ?thesis using digit_char_set[of n] by (subst digits.simps) simp
  next
    case False
    have "n mod 10 < 10" by simp
    then show ?thesis using False 1 digit_char_set[of "n mod 10"] by (subst digits.simps) simp
  qed
qed

lemma digits_inj: "digits n = digits m \<Longrightarrow> n = m"
proof (induction n arbitrary: m rule: digits.induct)
  case (1 n)
  show ?case
  proof (cases "n < 10")
    case True
    show ?thesis
    proof (cases "m < 10")
      case mt: True
      with True 1(2) digit_char_inj[of n m] show ?thesis
        by (simp add: digits.simps[of n] digits.simps[of m])
    next
      case False
      with True 1(2) digits_nonempty[of "m div 10"] show ?thesis
        by (simp add: digits.simps[of n] digits.simps[of m])
    qed
  next
    case False
    show ?thesis
    proof (cases "m < 10")
      case True
      with False 1(2) digits_nonempty[of "n div 10"] show ?thesis
        by (simp add: digits.simps[of n] digits.simps[of m])
    next
      case mf: False
      with False 1(2) have e: "digits (n div 10) = digits (m div 10)"
        and c: "digit_char (n mod 10) = digit_char (m mod 10)"
        by (simp_all add: digits.simps[of n] digits.simps[of m])
      from 1(1)[OF False e] have "n div 10 = m div 10" .
      moreover from c have "n mod 10 = m mod 10" by (intro digit_char_inj) simp_all
      ultimately show ?thesis by (metis div_mult_mod_eq)
    qed
  qed
qed

lemma show_int_inj: "show_int i = show_int j \<Longrightarrow> i = j"
proof -
  assume a: "show_int i = show_int j"
  have nm: "\<And>n. hd (digits n) \<noteq> CHR ''-''"
  proof -
    fix n
    have "hd (digits n) \<in> set (digits n)" using digits_nonempty by simp
    then have "hd (digits n) \<in> set ''0123456789''" using digits_set by blast
    then show "hd (digits n) \<noteq> CHR ''-''" by auto
  qed
  show ?thesis
  proof (cases "i < 0")
    case True
    show ?thesis
    proof (cases "j < 0")
      case jt: True
      with True a have "digits (nat (- i)) = digits (nat (- j))" by (simp add: show_int_def)
      then have "nat (- i) = nat (- j)" by (rule digits_inj)
      with True jt show ?thesis by simp
    next
      case False
      with True a have "CHR ''-'' # digits (nat (- i)) = digits (nat j)" by (simp add: show_int_def)
      then have "hd (digits (nat j)) = CHR ''-''" by (metis list.sel(1))
      with nm show ?thesis by blast
    qed
  next
    case False
    show ?thesis
    proof (cases "j < 0")
      case True
      with False a have "digits (nat i) = CHR ''-'' # digits (nat (- j))" by (simp add: show_int_def)
      then have "hd (digits (nat i)) = CHR ''-''" by (metis list.sel(1))
      with nm show ?thesis by blast
    next
      case jf: False
      with False a have "digits (nat i) = digits (nat j)" by (simp add: show_int_def)
      then have "nat i = nat j" by (rule digits_inj)
      with False jf show ?thesis by simp
    qed
  qed
qed

lemma show_int_set: "set (show_int i) \<subseteq> set ''-0123456789''"
proof (cases "i < 0")
  case True
  then have "set (show_int i) = insert CHR ''-'' (set (digits (nat (- i))))"
    by (simp add: show_int_def)
  also have "\<dots> \<subseteq> insert CHR ''-'' (set ''0123456789'')"
    using digits_set[of "nat (- i)"] by (rule insert_mono)
  also have "\<dots> = set ''-0123456789''" by simp
  finally show ?thesis .
next
  case False
  then have "set (show_int i) = set (digits (nat i))" by (simp add: show_int_def)
  also have "\<dots> \<subseteq> set ''0123456789''" by (rule digits_set)
  also have "\<dots> \<subseteq> set ''-0123456789''" by (simp add: subset_insertI)
  finally show ?thesis .
qed

lemma split_at_sep:
  "xs @ c # ys = xs' @ c # ys' \<Longrightarrow> c \<notin> set xs \<Longrightarrow> c \<notin> set xs' \<Longrightarrow> xs = xs' \<and> ys = ys'"
proof (induction xs arbitrary: xs')
  case Nil
  then show ?case by (cases xs') auto
next
  case (Cons a xs)
  then show ?case by (cases xs') auto
qed

lemma getCellKey_inj [simp]:
  "getCellKey x y = getCellKey x' y' \<longleftrightarrow> x = x' \<and> y = y'"
proof
  assume a: "getCellKey x y = getCellKey x' y'"
  have u: "CHR ''_'' \<notin> set (show_int x)" "CHR ''_'' \<notin> set (show_int x')"
    using show_int_set[of x] show_int_set[of x'] by auto
  from a have "show_int x @ CHR ''_'' # (''y_'' @ show_int y) = show_int x' @ CHR ''_'' # (''y_'' @ show_int y')"
    by (simp add: getCellKey_def)
  from split_at_sep[OF this u] have "show_int x = show_int x'" "show_int y = show_int y'" by simp_all
  then show "x = x' \<and> y = y'" by (simp add: show_int_inj)
qed simp

lemma gradientKey_inj [simp]:
  "gradientKey x y = gradientKey x' y' \<longleftrightarrow> x = x' \<and> y = y'"
proof
  assume a: "gradientKey x y = gradientKey x' y'"
  have u: "CHR '','' \<notin> set (show_int x)" "CHR '','' \<notin> set (show_int x')"
    using show_int_set[of x] show_int_set[of x'] by auto
  from a have "show_int x @ CHR '','' # show_int y = show_int x' @ CHR '','' # show_int y'"
    by (simp add: gradientKey_def)
  from split_at_sep[OF this u] have "show_int x = show_int x'" "show_int y = show_int y'" by simp_all
  then show "x = x' \<and> y = y'" by (simp add: show_int_inj)
qed simp

section \<open>Coordinates\<close>

text \<open>
  C3. \<open>worldToCell\<close> is the floor of the quotient on each axis, so with cell size 50 the
  points (-1,-1), (49,0) and (50,0) lie in the cells (-1,-1), (0,0) and (1,0), and
  \<open>getCellAtWorldPos(120, -30)\<close> is \<open>getCell(2, -1)\<close>.
\<close>

theorem worldToCell_floor:
  "worldToCell cs x y = (\<lfloor>x / cs\<rfloor>, \<lfloor>y / cs\<rfloor>) \<and>
   worldToCell 50 (- 1) (- 1) = (- 1, - 1) \<and>
   worldToCell 50 49 0 = (0, 0) \<and>
   worldToCell 50 50 0 = (1, 0) \<and>
   getCellAtWorldPos depth (s\<lparr>cellSize := 50\<rparr>) 120 (- 30) = getCell depth (s\<lparr>cellSize := 50\<rparr>) 2 (- 1)"
proof -
  have a: "\<lfloor>(- 1 :: real) / 50\<rfloor> = - 1" by (simp add: floor_eq_iff)
  have b: "\<lfloor>(49 :: real) / 50\<rfloor> = 0" by (simp add: floor_eq_iff)
  have c: "\<lfloor>(120 :: real) / 50\<rfloor> = 2" by (simp add: floor_eq_iff)
  have d: "\<lfloor>(- 30 :: real) / 50\<rfloor> = - 1" by (simp add: floor_eq_iff)
  show ?thesis
    by (simp add: worldToCell_def getCellAtWorldPos_def getCellAtWorldPos_with_def a b c d)
qed

section \<open>Terrain flags\<close>

text \<open>
  C2, as the constructor computes the flags: water below 0.4, beach strictly between 0.4
  and 0.45, frozen below 0.3, desert above 0.7; water and beach exclude each other; a cell
  of height exactly 0.4 is neither water nor beach.
\<close>

theorem terrain_flags:
  "(water (Cell_fields x y cs soil h temp) \<longleftrightarrow> h < 4/10) \<and>
   (beach (Cell_fields x y cs soil h temp) \<longleftrightarrow> 4/10 < h \<and> h < 45/100) \<and>
   (frozen (Cell_fields x y cs soil h temp) \<longleftrightarrow> temp < 3/10) \<and>
   (desert (Cell_fields x y cs soil h temp) \<longleftrightarrow> temp > 7/10) \<and>
   \<not> (water (Cell_fields x y cs soil h temp) \<and> beach (Cell_fields x y cs soil h temp)) \<and>
   height (Cell_fields x y cs soil h temp) = h \<and>
   temperature (Cell_fields x y cs soil h temp) = temp \<and>
   \<not> beach (Cell_fields x y cs soil (4/10) temp) \<and>
   \<not> water (Cell_fields x y cs soil (4/10) temp)"
  by (simp add: Cell_fields_def)

text \<open>C2 as stated fails at height 0.4: the cell is not a beach.\<close>

theorem beach_threshold_counterexample:
  "height (Cell_fields 0 0 50 (1/2) (4/10) (1/2)) = 4/10 \<and>
   \<not> (beach (Cell_fields 0 0 50 (1/2) (4/10) (1/2)) \<longleftrightarrow>
        4/10 \<le> height (Cell_fields 0 0 50 (1/2) (4/10) (1/2)) \<and>
        height (Cell_fields 0 0 50 (1/2) (4/10) (1/2)) < 45/100)"
  by (simp add: Cell_fields_def)

section \<open>Spawn chance\<close>

text \<open>The fitness of one scalar as the specification words it.\<close>

lemma calculatePropertyFitness_formula:
  assumes "mn \<le> optimal" "optimal \<le> mx" "mn < mx"
  shows "calculatePropertyFitness v mn mx optimal =
         (if v < mn \<or> v > mx then 0
          else 1 - \<bar>v - optimal\<bar> / max (optimal - mn) (mx - optimal))"
proof (cases "v < mn \<or> v > mx")
  case True
  then show ?thesis by (auto simp: calculatePropertyFitness_def)
next
  case False
  let ?m = "max (optimal - mn) (mx - optimal)"
  from assms have pos: "0 < ?m" by (simp add: max_def)
  from False assms have "\<bar>v - optimal\<bar> \<le> ?m" by (simp add: max_def abs_le_iff)
  then have "\<bar>v - optimal\<bar> / ?m \<le> 1" using pos by (simp add: divide_le_eq_1)
  then have "0 \<le> 1 - \<bar>v - optimal\<bar> / ?m" by simp
  with False show ?thesis by (simp add: calculatePropertyFitness_def Let_def max_def)
qed

lemma calculatePropertyFitness_range:
  "0 \<le> calculatePropertyFitness v mn mx optimal \<and> calculatePropertyFitness v mn mx optimal \<le> 1"
proof (cases "v < mn \<or> v > mx")
  case True
  then show ?thesis by (auto simp: calculatePropertyFitness_def)
next
  case False
  then have m: "0 \<le> max (optimal - mn) (mx - optimal)" by (simp add: max_def)
  then have "0 \<le> \<bar>v - optimal\<bar> / max (optimal - mn) (mx - optimal)" by simp
  then show ?thesis using False by (simp add: calculatePropertyFitness_def Let_def)
qed

lemma treePreferences_keys:
  "map fst treePreferences = [''oak'', ''pine'', ''palm'', ''birch'', ''maple'']"
  by (simp add: treePreferences_def)

lemma treePreferences_ranges:
  assumes "(t, prefs) \<in> set treePreferences"
  shows "heightMin prefs \<le> heightOptimal prefs \<and> heightOptimal prefs \<le> heightMax prefs \<and>
         heightMin prefs < heightMax prefs \<and>
         soilMin prefs \<le> soilOptimal prefs \<and> soilOptimal prefs \<le> soilMax prefs \<and>
         soilMin prefs < soilMax prefs \<and>
         tempMin prefs \<le> tempOptimal prefs \<and> tempOptimal prefs \<le> tempMax prefs \<and>
         tempMin prefs < tempMax prefs"
  using assms unfolding treePreferences_def by auto

lemma treePreferences_lookup:
  assumes "(t, prefs) \<in> set treePreferences"
  shows "get_property treePreferences t = Own prefs"
proof -
  have "distinct (map fst treePreferences)" by (simp add: treePreferences_keys)
  with assms have "map_of treePreferences t = Some prefs" by simp
  then show ?thesis by (simp add: get_property_def)
qed

text \<open>A type that is neither a key of the table nor an inherited property name: a warning,
  and chance 0.\<close>

lemma calculateTreeSpawnChance_unknown:
  assumes "t \<notin> set (map fst treePreferences)" "t \<notin> set Object_prototype_keys"
  shows "calculateTreeSpawnChance h soil temp t = (Num 0, [''Unknown tree type: '' @ t])"
proof -
  from assms(1) have "map_of treePreferences t = None" by (simp add: map_of_eq_None_iff)
  with assms(2) have "get_property treePreferences t = Undefined" by (simp add: get_property_def)
  then show ?thesis by (simp add: calculateTreeSpawnChance_def)
qed

text \<open>A type of the table: the product of the three fitness values times 0.3, no warning.\<close>

lemma calculateTreeSpawnChance_known:
  assumes "(t, prefs) \<in> set treePreferences"
  shows "calculateTreeSpawnChance h soil temp t =
           (Num (calculatePropertyFitness h (heightMin prefs) (heightMax prefs) (heightOptimal prefs) *
                 calculatePropertyFitness soil (soilMin prefs) (soilMax prefs) (soilOptimal prefs) *
                 calculatePropertyFitness temp (tempMin prefs) (tempMax prefs) (tempOptimal prefs) *
                 (3/10)), [])"
  using treePreferences_lookup[OF assms] by (simp add: calculateTreeSpawnChance_def Let_def)

lemma calculateTreeSpawnChance_bound:
  "calculateTreeSpawnChance h soil temp t = (Num c, w) \<Longrightarrow> 0 \<le> c \<and> c \<le> 3/10"
proof -
  assume a: "calculateTreeSpawnChance h soil temp t = (Num c, w)"
  show ?thesis
  proof (cases "get_property treePreferences t")
    case (Own prefs)
    let ?a = "calculatePropertyFitness h (heightMin prefs) (heightMax prefs) (heightOptimal prefs)"
    let ?b = "calculatePropertyFitness soil (soilMin prefs) (soilMax prefs) (soilOptimal prefs)"
    let ?c = "calculatePropertyFitness temp (tempMin prefs) (tempMax prefs) (tempOptimal prefs)"
    from a Own have c: "c = ?a * ?b * ?c * (3/10)"
      by (simp add: calculateTreeSpawnChance_def Let_def)
    have r: "0 \<le> ?a" "?a \<le> 1" "0 \<le> ?b" "?b \<le> 1" "0 \<le> ?c" "?c \<le> 1"
      using calculatePropertyFitness_range by blast+
    have ab: "0 \<le> ?a * ?b" "?a * ?b \<le> 1" using r by (simp_all add: mult_le_one)
    have abc: "0 \<le> ?a * ?b * ?c" "?a * ?b * ?c \<le> 1" using ab r by (simp_all add: mult_le_one)
    then show ?thesis using c by simp
  next
    case Inherited
    with a show ?thesis by (simp add: calculateTreeSpawnChance_def)
  next
    case Undefined
    with a show ?thesis by (simp add: calculateTreeSpawnChance_def)
  qed
qed

text \<open>The first loop of \<open>spawnTreesHere\<close> goes on over the remaining types after a type
  without a positive chance: the candidates are those of the types before and after.\<close>

lemma collectTreeChances_append:
  "fst (collectTreeChances h soil temp (ts @ us)) =
     fst (collectTreeChances h soil temp ts) @ fst (collectTreeChances h soil temp us)"
  by (induction ts) (simp_all add: split_beta Let_def)

lemma collectTreeChances_skips_unknown:
  assumes "t \<notin> set (map fst treePreferences)"
  shows "fst (collectTreeChances h soil temp (ts @ t # us)) =
           fst (collectTreeChances h soil temp ts) @ fst (collectTreeChances h soil temp us)"
proof -
  have "\<not> js_positive (fst (calculateTreeSpawnChance h soil temp t))"
  proof (cases "t \<in> set Object_prototype_keys")
    case True
    from assms have "map_of treePreferences t = None" by (simp add: map_of_eq_None_iff)
    with True have "get_property treePreferences t = Inherited" by (simp add: get_property_def)
    then show ?thesis by (simp add: calculateTreeSpawnChance_def)
  next
    case False
    with assms show ?thesis by (simp add: calculateTreeSpawnChance_unknown)
  qed
  then have "fst (collectTreeChances h soil temp (t # us)) = fst (collectTreeChances h soil temp us)"
    by (simp add: split_beta Let_def)
  then show ?thesis by (simp add: collectTreeChances_append)
qed

text \<open>
  C9 at a type name that the table inherits from \<open>Object.prototype\<close>: the lookup is
  truthy, no warning is written, and the chance is NaN, not 0.
\<close>

theorem calculateTreeSpawnChance_inherited_key:
  "calculateTreeSpawnChance h soil temp ''toString'' = (NaN, [])"
proof -
  have "map_of treePreferences ''toString'' = None"
    by (simp add: treePreferences_def)
  moreover have "''toString'' \<in> set Object_prototype_keys"
    by (simp add: Object_prototype_keys_def)
  ultimately have "get_property treePreferences ''toString'' = Inherited"
    by (simp add: get_property_def)
  then show ?thesis by (simp add: calculateTreeSpawnChance_def)
qed

section \<open>Queries: exact results\<close>

lemma set_cellRange: "set (cellRange a b c d) = {a..b} \<times> {c..d}"
  by (auto simp: cellRange_def)

lemma visitCell_mono: "found \<subseteq> visitCell s keep found xy"
  by (auto simp: visitCell_def split: option.splits)

lemma foldl_visitCell_iff:
  "e \<in> foldl (visitCell s keep) found xys \<longleftrightarrow>
     e \<in> found \<or>
     (\<exists>xy \<in> set xys. \<exists>a c en. cells s (getCellKey (fst xy) (snd xy)) = Some a \<and>
        cellObjs s a = Some c \<and> e \<in> entities c \<and> entityObjs s e = Some en \<and> keep en)"
proof (induction xys arbitrary: found)
  case Nil
  then show ?case by simp
next
  case (Cons xy xys)
  have "e \<in> visitCell s keep found xy \<longleftrightarrow>
          e \<in> found \<or> (\<exists>a c en. cells s (getCellKey (fst xy) (snd xy)) = Some a \<and>
             cellObjs s a = Some c \<and> e \<in> entities c \<and> entityObjs s e = Some en \<and> keep en)"
    by (auto simp: visitCell_def split: option.splits)
  with Cons.IH[of "visitCell s keep found xy"] show ?case by auto
qed

lemma abs_le_sqrt_sum: "\<bar>a\<bar> \<le> sqrt (a * a + b * b)"
proof -
  have "\<bar>a\<bar> = sqrt (a * a)" by simp
  also have "\<dots> \<le> sqrt (a * a + b * b)" by (rule real_sqrt_le_mono) simp
  finally show ?thesis .
qed

lemma floor_div_mono:
  fixes a b cs :: real
  assumes "0 < cs" "a \<le> b"
  shows "\<lfloor>a / cs\<rfloor> \<le> \<lfloor>b / cs\<rfloor>"
  using assms by (intro floor_mono divide_right_mono) simp_all

text \<open>
  C5. With a positive cell size, a radius \<open>r \<ge> 0\<close> and a consistent index, a tracked
  entity is in the result of \<open>getEntitiesInRadius(cx, cy, r)\<close> exactly when its Euclidean
  distance from the centre is at most \<open>r\<close>.
\<close>

theorem getEntitiesInRadius_exact:
  assumes "0 \<le> r" and "0 < cellSize s" and "index_consistent s"
    and "entityObjs s e = Some en" and "currentCell en \<noteq> None"
  shows "e \<in> fst (getEntitiesInRadius s cx cy r) \<longleftrightarrow>
         sqrt ((fst (position en) - cx) * (fst (position en) - cx) +
               (snd (position en) - cy) * (snd (position en) - cy)) \<le> r"
proof
  assume "e \<in> fst (getEntitiesInRadius s cx cy r)"
  then obtain en' where "entityObjs s e = Some en'" "withinRadius cx cy r en'"
    by (auto simp: getEntitiesInRadius_def Let_def foldl_visitCell_iff)
  with assms(4) show "sqrt ((fst (position en) - cx) * (fst (position en) - cx) +
               (snd (position en) - cy) * (snd (position en) - cy)) \<le> r"
    by (simp add: withinRadius_def Let_def)
next
  let ?px = "fst (position en)" and ?py = "snd (position en)"
  assume d: "sqrt ((?px - cx) * (?px - cx) + (?py - cy) * (?py - cy)) \<le> r"
  have "\<bar>?px - cx\<bar> \<le> r" using abs_le_sqrt_sum[of "?px - cx" "?py - cy"] d by linarith
  then have x: "cx - r \<le> ?px" "?px \<le> cx + r" by linarith+
  have "\<bar>?py - cy\<bar> \<le> r"
    using abs_le_sqrt_sum[of "?py - cy" "?px - cx"] d by (simp add: add.commute)
  then have y: "cy - r \<le> ?py" "?py \<le> cy + r" by linarith+
  from assms(3,4,5) obtain a c where
    ac: "cells s (getCellKey \<lfloor>?px / cellSize s\<rfloor> \<lfloor>?py / cellSize s\<rfloor>) = Some a"
        "cellObjs s a = Some c" "e \<in> entities c"
    unfolding index_consistent_def worldToCell_def by fastforce
  have inx: "\<lfloor>?px / cellSize s\<rfloor> \<in> {\<lfloor>(cx - r) / cellSize s\<rfloor>..\<lfloor>(cx + r) / cellSize s\<rfloor>}"
    using floor_div_mono[OF assms(2) x(1)] floor_div_mono[OF assms(2) x(2)] by simp
  have iny: "\<lfloor>?py / cellSize s\<rfloor> \<in> {\<lfloor>(cy - r) / cellSize s\<rfloor>..\<lfloor>(cy + r) / cellSize s\<rfloor>}"
    using floor_div_mono[OF assms(2) y(1)] floor_div_mono[OF assms(2) y(2)] by simp
  have w: "withinRadius cx cy r en" using d by (simp add: withinRadius_def Let_def)
  have "(\<lfloor>?px / cellSize s\<rfloor>, \<lfloor>?py / cellSize s\<rfloor>) \<in>
          set (cellRange \<lfloor>(cx - r) / cellSize s\<rfloor> \<lfloor>(cx + r) / cellSize s\<rfloor>
                         \<lfloor>(cy - r) / cellSize s\<rfloor> \<lfloor>(cy + r) / cellSize s\<rfloor>)"
    using inx iny by (simp add: set_cellRange)
  with ac w assms(4) show "e \<in> fst (getEntitiesInRadius s cx cy r)"
    unfolding getEntitiesInRadius_def Let_def fst_conv foldl_visitCell_iff
    by (intro disjI2 bexI[where x = "(\<lfloor>?px / cellSize s\<rfloor>, \<lfloor>?py / cellSize s\<rfloor>)"]) auto
qed

text \<open>The area query in the same way (the closed rectangle; \<open>width\<close> and \<open>height\<close> not
  negative).\<close>

lemma getEntitiesInArea_exact:
  assumes "0 < cellSize s" and "index_consistent s"
    and "entityObjs s e = Some en" and "currentCell en \<noteq> None"
  shows "e \<in> fst (getEntitiesInArea s x y w h) \<longleftrightarrow>
         x \<le> fst (position en) \<and> fst (position en) \<le> x + w \<and>
         y \<le> snd (position en) \<and> snd (position en) \<le> y + h"
proof
  assume "e \<in> fst (getEntitiesInArea s x y w h)"
  then obtain en' where "entityObjs s e = Some en'" "withinArea x y w h en'"
    by (auto simp: getEntitiesInArea_def Let_def foldl_visitCell_iff)
  with assms(3) show "x \<le> fst (position en) \<and> fst (position en) \<le> x + w \<and>
         y \<le> snd (position en) \<and> snd (position en) \<le> y + h"
    by (simp add: withinArea_def)
next
  let ?px = "fst (position en)" and ?py = "snd (position en)"
  assume d: "x \<le> ?px \<and> ?px \<le> x + w \<and> y \<le> ?py \<and> ?py \<le> y + h"
  from assms(2,3,4) obtain a c where
    ac: "cells s (getCellKey \<lfloor>?px / cellSize s\<rfloor> \<lfloor>?py / cellSize s\<rfloor>) = Some a"
        "cellObjs s a = Some c" "e \<in> entities c"
    unfolding index_consistent_def worldToCell_def by fastforce
  have inx: "\<lfloor>?px / cellSize s\<rfloor> \<in> {\<lfloor>x / cellSize s\<rfloor>..\<lfloor>(x + w) / cellSize s\<rfloor>}"
    using floor_div_mono[OF assms(1), of x ?px] floor_div_mono[OF assms(1), of ?px "x + w"] d by simp
  have iny: "\<lfloor>?py / cellSize s\<rfloor> \<in> {\<lfloor>y / cellSize s\<rfloor>..\<lfloor>(y + h) / cellSize s\<rfloor>}"
    using floor_div_mono[OF assms(1), of y ?py] floor_div_mono[OF assms(1), of ?py "y + h"] d by simp
  have wa: "withinArea x y w h en" using d by (simp add: withinArea_def)
  have "(\<lfloor>?px / cellSize s\<rfloor>, \<lfloor>?py / cellSize s\<rfloor>) \<in>
          set (cellRange \<lfloor>x / cellSize s\<rfloor> \<lfloor>(x + w) / cellSize s\<rfloor>
                         \<lfloor>y / cellSize s\<rfloor> \<lfloor>(y + h) / cellSize s\<rfloor>)"
    using inx iny by (simp add: set_cellRange)
  with ac wa assms(3) show "e \<in> fst (getEntitiesInArea s x y w h)"
    unfolding getEntitiesInArea_def Let_def fst_conv foldl_visitCell_iff
    by (intro disjI2 bexI[where x = "(\<lfloor>?px / cellSize s\<rfloor>, \<lfloor>?py / cellSize s\<rfloor>)"]) auto
qed

section \<open>The noise caches refine the noise function\<close>

lemma randomGradient_refines:
  assumes "caches_ok p" and "randomGradient p ix iy = (g, p')"
  shows "g = gradientAt (seed p) ix iy \<and> caches_ok p' \<and> seed p' = seed p \<and> memory p' = memory p"
proof (cases "gradients p (gradientKey ix iy)")
  case None
  with assms(2) have g: "g = gradientAt (seed p) ix iy"
    and p': "p' = p\<lparr>gradients := (gradients p)(gradientKey ix iy \<mapsto> g)\<rparr>"
    by (auto simp: randomGradient_def Let_def gradientAt_def)
  from assms(1) g have "caches_ok p'"
    unfolding p' caches_ok_def by (auto split: if_splits)
  with g p' show ?thesis by simp
next
  case (Some g0)
  with assms(2) have e: "g = g0" "p' = p" by (simp_all add: randomGradient_def)
  from assms(1) Some have "g0 = gradientAt (seed p) ix iy" unfolding caches_ok_def by blast
  with e assms(1) show ?thesis by simp
qed

lemma dotGridGradient_refines:
  assumes "caches_ok p" and "dotGridGradient p ix iy x y = (d, p')"
  shows "d = dotAt (seed p) ix iy x y \<and> caches_ok p' \<and> seed p' = seed p \<and> memory p' = memory p"
proof -
  obtain g q where r: "randomGradient p ix iy = (g, q)" by (cases "randomGradient p ix iy")
  from randomGradient_refines[OF assms(1) r] r assms(2) show ?thesis
    by (auto simp: dotGridGradient_def dotAt_def Let_def)
qed

lemma noise_refines:
  assumes "caches_ok p" and "noise p x y = (v, p')"
  shows "v = noiseAt (seed p) x y \<and> caches_ok p' \<and> seed p' = seed p"
proof (cases "memory p (x, y)")
  case (Some v0)
  with assms(2) have e: "v = v0" "p' = p" by (simp_all add: noise_def)
  from assms(1) Some have "v0 = noiseAt (seed p) x y" unfolding caches_ok_def by blast
  with e assms(1) show ?thesis by simp
next
  case None
  obtain n0 p1 where d0: "dotGridGradient p \<lfloor>x\<rfloor> \<lfloor>y\<rfloor> x y = (n0, p1)"
    by (cases "dotGridGradient p \<lfloor>x\<rfloor> \<lfloor>y\<rfloor> x y")
  obtain n1 p2 where d1: "dotGridGradient p1 (\<lfloor>x\<rfloor> + 1) \<lfloor>y\<rfloor> x y = (n1, p2)"
    by (cases "dotGridGradient p1 (\<lfloor>x\<rfloor> + 1) \<lfloor>y\<rfloor> x y")
  obtain n2 p3 where d2: "dotGridGradient p2 \<lfloor>x\<rfloor> (\<lfloor>y\<rfloor> + 1) x y = (n2, p3)"
    by (cases "dotGridGradient p2 \<lfloor>x\<rfloor> (\<lfloor>y\<rfloor> + 1) x y")
  obtain n3 p4 where d3: "dotGridGradient p3 (\<lfloor>x\<rfloor> + 1) (\<lfloor>y\<rfloor> + 1) x y = (n3, p4)"
    by (cases "dotGridGradient p3 (\<lfloor>x\<rfloor> + 1) (\<lfloor>y\<rfloor> + 1) x y")
  note r0 = dotGridGradient_refines[OF assms(1) d0]
  note r1 = dotGridGradient_refines[OF conjunct1[OF conjunct2[OF r0]] d1]
  note r2 = dotGridGradient_refines[OF conjunct1[OF conjunct2[OF r1]] d2]
  note r3 = dotGridGradient_refines[OF conjunct1[OF conjunct2[OF r2]] d3]
  from r0 r1 r2 r3 have seeds: "seed p1 = seed p" "seed p2 = seed p" "seed p3 = seed p" "seed p4 = seed p"
    by simp_all
  from r0 r1 r2 r3 seeds have ns: "n0 = dotAt (seed p) \<lfloor>x\<rfloor> \<lfloor>y\<rfloor> x y"
    "n1 = dotAt (seed p) (\<lfloor>x\<rfloor> + 1) \<lfloor>y\<rfloor> x y"
    "n2 = dotAt (seed p) \<lfloor>x\<rfloor> (\<lfloor>y\<rfloor> + 1) x y"
    "n3 = dotAt (seed p) (\<lfloor>x\<rfloor> + 1) (\<lfloor>y\<rfloor> + 1) x y"
    by simp_all
  from assms(2) None d0 d1 d2 d3
  have "v = noiseAt (seed p) x y \<and> p' = p4\<lparr>memory := (memory p4)((x, y) \<mapsto> v)\<rparr>"
    by (auto simp: noise_def Let_def noiseAt_def ns)
  then have v: "v = noiseAt (seed p) x y"
    and p': "p' = p4\<lparr>memory := (memory p4)((x, y) \<mapsto> v)\<rparr>" by simp_all
  from r3 have c4: "caches_ok p4" by simp
  have "caches_ok p'"
    unfolding p' using c4 v seeds by (auto simp: caches_ok_def)
  with v p' seeds show ?thesis by simp
qed

lemma caches_ok_new: "caches_ok (PerlinNoise_new sd)"
  by (simp add: caches_ok_def PerlinNoise_new_def)

text \<open>At a lattice point every sample is one half.\<close>

lemma noiseAt_lattice: "noiseAt sd (real_of_int i) (real_of_int j) = 1/2"
  by (simp add: noiseAt_def Let_def dotAt_def interpolate_def)

section \<open>Frames compose\<close>

lemma frame_refl: "frame E s s"
  by (simp add: frame_def)

lemma frame_trans:
  assumes "frame E s s1" and "frame E' s1 s2"
  shows "frame (E \<union> E') s s2"
  unfolding frame_def
proof (intro conjI allI impI)
  fix e en assume "entityObjs s e = Some en"
  with assms(1) obtain en1 where e1: "entityObjs s1 e = Some en1" "e \<notin> E \<longrightarrow> en1 = en"
    unfolding frame_def by blast
  with assms(2) obtain en2 where e2: "entityObjs s2 e = Some en2" "e \<notin> E' \<longrightarrow> en2 = en1"
    unfolding frame_def by blast
  with e1 show "\<exists>en'. entityObjs s2 e = Some en' \<and> (e \<notin> E \<union> E' \<longrightarrow> en' = en)" by auto
next
  fix k a assume "cells s k = Some a"
  with assms show "cells s2 k = Some a" unfolding frame_def by blast
next
  fix a c assume c: "cellObjs s a = Some c"
  with assms(1) obtain c1 where c1: "cellObjs s1 a = Some c1"
      "c1\<lparr>entities := {}\<rparr> = c\<lparr>entities := {}\<rparr>"
      "\<forall>e. entityObjs s e \<noteq> None \<longrightarrow> e \<notin> E \<longrightarrow> (e \<in> entities c1 \<longleftrightarrow> e \<in> entities c)"
    unfolding frame_def by blast
  with assms(2) obtain c2 where c2: "cellObjs s2 a = Some c2"
      "c2\<lparr>entities := {}\<rparr> = c1\<lparr>entities := {}\<rparr>"
      "\<forall>e. entityObjs s1 e \<noteq> None \<longrightarrow> e \<notin> E' \<longrightarrow> (e \<in> entities c2 \<longleftrightarrow> e \<in> entities c1)"
    unfolding frame_def by blast
  have dom: "\<And>e. entityObjs s e \<noteq> None \<Longrightarrow> entityObjs s1 e \<noteq> None"
    using assms(1) unfolding frame_def by fastforce
  have "\<forall>e. entityObjs s e \<noteq> None \<longrightarrow> e \<notin> E \<union> E' \<longrightarrow> (e \<in> entities c2 \<longleftrightarrow> e \<in> entities c)"
    using c1(3) c2(3) dom by auto
  with c1 c2 show "\<exists>c'. cellObjs s2 a = Some c' \<and> c'\<lparr>entities := {}\<rparr> = c\<lparr>entities := {}\<rparr> \<and>
      (\<forall>e. entityObjs s e \<noteq> None \<longrightarrow> e \<notin> E \<union> E' \<longrightarrow> (e \<in> entities c' \<longleftrightarrow> e \<in> entities c))"
    by simp
qed (use assms in \<open>simp_all add: frame_def\<close>)

lemma frame_weaken:
  assumes "frame E s s'" and "\<forall>e\<in>E. e \<in> E' \<or> entityObjs s e = None"
  shows "frame E' s s'"
  using assms unfolding frame_def
  apply (intro conjI)
         apply simp_all
   apply (metis option.distinct(1))
  apply (metis option.distinct(1))
  done

lemma pos_kept_refl: "pos_kept s s"
  by (auto simp: pos_kept_def positioned_def)

lemma pos_kept_trans: "pos_kept s s1 \<Longrightarrow> pos_kept s1 s2 \<Longrightarrow> pos_kept s s2"
  unfolding pos_kept_def by blast

lemma step_ok_refl: "sound s \<Longrightarrow> step_ok s s"
  by (simp add: step_ok_def frame_refl pos_kept_refl)

lemma step_ok_trans:
  assumes "step_ok s s1" and "step_ok s1 s2"
  shows "step_ok s s2"
proof -
  from assms have "frame ({} \<union> {}) s s2" unfolding step_ok_def by (blast intro: frame_trans)
  with assms show ?thesis unfolding step_ok_def by (auto intro: pos_kept_trans)
qed

section \<open>Steps of the constructor path keep the invariants\<close>

lemma sound_randomCount [simp]: "sound (s\<lparr>randomCount := n\<rparr>) = sound s"
  by (simp add: sound_def map_ok_def alloc_ok_def terrain_ok_def)

lemma sound_console [simp]: "sound (s\<lparr>console := l\<rparr>) = sound s"
  by (simp add: sound_def map_ok_def alloc_ok_def terrain_ok_def)

lemma index_ok_randomCount [simp]: "index_ok (s\<lparr>randomCount := n\<rparr>) = index_ok s"
  by (simp add: index_ok_def)

lemma index_ok_console [simp]: "index_ok (s\<lparr>console := l\<rparr>) = index_ok s"
  by (simp add: index_ok_def)

lemma positioned_randomCount [simp]: "positioned (s\<lparr>randomCount := n\<rparr>) e = positioned s e"
  by (simp add: positioned_def)

lemma positioned_console [simp]: "positioned (s\<lparr>console := l\<rparr>) e = positioned s e"
  by (simp add: positioned_def)

lemma frame_randomCount [simp]: "frame E s (s'\<lparr>randomCount := n\<rparr>) = frame E s s'"
  by (simp add: frame_def)

lemma frame_console [simp]: "frame E s (s'\<lparr>console := l\<rparr>) = frame E s s'"
  by (simp add: frame_def)

lemma pos_kept_randomCount [simp]: "pos_kept s (s'\<lparr>randomCount := n\<rparr>) = pos_kept s s'"
  by (simp add: pos_kept_def)

lemma pos_kept_console [simp]: "pos_kept s (s'\<lparr>console := l\<rparr>) = pos_kept s s'"
  by (simp add: pos_kept_def)

lemma step_ok_randomCount [simp]: "step_ok s (s'\<lparr>randomCount := n\<rparr>) = step_ok s s'"
  by (simp add: step_ok_def)

lemma step_ok_console [simp]: "step_ok s (s'\<lparr>console := l\<rparr>) = step_ok s s'"
  by (simp add: step_ok_def)

lemma step_ok_Math_random: "sound s \<Longrightarrow> step_ok s (snd (Math_random s))"
  by (simp add: Math_random_def step_ok_refl)

text \<open>Allocating an entity object with no current cell.\<close>

lemma alloc_entity_ok:
  assumes "sound s"
    and s1_def: "s1 = s\<lparr>entityObjs := (entityObjs s)(nextEntity s \<mapsto> \<lparr>position = p, currentCell = None\<rparr>),
                   nextEntity := Suc (nextEntity s)\<rparr>"
  shows "step_ok s s1" and "entityObjs s (nextEntity s) = None"
proof -
  from assms(1) have fresh: "entityObjs s (nextEntity s) = None"
    unfolding sound_def alloc_ok_def by (cases "entityObjs s (nextEntity s)") auto
  then show "entityObjs s (nextEntity s) = None" .
  from assms(1) have "sound s1"
    unfolding sound_def map_ok_def alloc_ok_def terrain_ok_def s1_def
    by (auto simp: less_Suc_eq)
  moreover have "frame {} s s1"
    unfolding frame_def s1_def using fresh by auto
  moreover have "index_ok s \<Longrightarrow> index_ok s1"
    unfolding index_ok_def s1_def using fresh
    by (auto split: if_splits) (metis option.distinct(1))+
  moreover have "pos_kept s s1"
    unfolding pos_kept_def positioned_def s1_def using fresh by auto
  ultimately show "step_ok s s1" by (simp add: step_ok_def)
qed

text \<open>\<open>cell.addEntity(entity); entity.currentCell = cell\<close> for an entity without a
  current cell.\<close>

lemma track_ok:
  assumes "sound s" and en: "entityObjs s e = Some en" "currentCell en = None"
    and c: "cellObjs s a = Some c"
    and "Cell_addEntity s a e = Some s1" and "set_currentCell s1 e (Some a) = Some s2"
  shows "sound s2" and "frame {e} s s2"
    and "index_ok s \<Longrightarrow> index_ok s2"
    and "(cell_x c, cell_y c) = worldToCell (cellSize s) (fst (position en)) (snd (position en))
           \<Longrightarrow> pos_kept s s2 \<and> positioned s2 e"
proof -
  from assms have s2: "s2 = s\<lparr>cellObjs := (cellObjs s)(a \<mapsto> c\<lparr>entities := insert e (entities c)\<rparr>),
                              entityObjs := (entityObjs s)(e \<mapsto> en\<lparr>currentCell := Some a\<rparr>)\<rparr>"
    by (auto simp: Cell_addEntity_def set_currentCell_def)
  have "map_ok s2"
    using assms(1) c unfolding sound_def map_ok_def s2
    by (auto split: if_splits) (metis option.inject)+
  moreover have "alloc_ok s2"
    using assms(1) c en unfolding sound_def alloc_ok_def s2
    by (auto split: if_splits)
  moreover have "terrain_ok s2"
    using assms(1) c unfolding sound_def terrain_ok_def s2
    by (auto simp: Cell_terrain_def split: if_splits)
  ultimately show "sound s2" by (simp add: sound_def)
  show "frame {e} s s2"
    unfolding frame_def s2 using c en by auto
  show "index_ok s2" if "index_ok s"
    using that c en unfolding index_ok_def s2
    by (auto split: if_splits) (metis option.distinct(1) option.inject)+
  show "pos_kept s s2 \<and> positioned s2 e"
    if "(cell_x c, cell_y c) = worldToCell (cellSize s) (fst (position en)) (snd (position en))"
    using that c en unfolding pos_kept_def positioned_def s2
    by (auto split: if_splits)
qed

lemma sound_cell_at_key:
  assumes "sound s" and "cells s (getCellKey x y) = Some a"
  shows "\<exists>c. cellObjs s a = Some c \<and> cell_x c = x \<and> cell_y c = y"
proof -
  from assms obtain c where "cellObjs s a = Some c" "getCellKey x y = getCellKey (cell_x c) (cell_y c)"
    unfolding sound_def map_ok_def by blast
  then show ?thesis by simp
qed

lemma Grid_addEntity_with_ok:
  assumes "gc_ok gc" and "sound s" and en: "entityObjs s e = Some en" "currentCell en = None"
    and run: "Grid_addEntity_with gc s e = Some s'"
  shows "sound s'" and "frame {e} s s'"
    and "index_ok s \<Longrightarrow> index_ok s' \<and> pos_kept s s' \<and> positioned s' e"
    and "\<exists>a c. entityObjs s' e = Some (en\<lparr>currentCell := Some a\<rparr>) \<and>
           cells s' (getCellKey \<lfloor>fst (position en) / cellSize s\<rfloor> \<lfloor>snd (position en) / cellSize s\<rfloor>) = Some a \<and>
           cellObjs s' a = Some c \<and> e \<in> entities c"
proof -
  let ?x = "\<lfloor>fst (position en) / cellSize s\<rfloor>" and ?y = "\<lfloor>snd (position en) / cellSize s\<rfloor>"
  from run en obtain a s1 s2 where
    gc: "gc s ?x ?y = Some (a, s1)" and
    add: "Cell_addEntity s1 a e = Some s2" and
    cur: "set_currentCell s2 e (Some a) = Some s'"
    by (auto simp: Grid_addEntity_with_def getCellAtWorldPos_with_def worldToCell_def
        split: option.splits prod.splits)
  from assms(1,2) gc have st: "step_ok s s1" and key: "cells s1 (getCellKey ?x ?y) = Some a"
    unfolding gc_ok_def by blast+
  from st have s1: "sound s1" and f1: "frame {} s s1" by (simp_all add: step_ok_def)
  from sound_cell_at_key[OF s1 key] obtain c where
    c: "cellObjs s1 a = Some c" "cell_x c = ?x" "cell_y c = ?y" by blast
  from f1 en have en1: "entityObjs s1 e = Some en" and cs: "cellSize s1 = cellSize s"
    unfolding frame_def by auto
  have pos: "(cell_x c, cell_y c) = worldToCell (cellSize s1) (fst (position en)) (snd (position en))"
    using c cs by (simp add: worldToCell_def)
  note t = track_ok[OF s1 en1 en(2) c(1) add cur]
  show "sound s'" by (rule t(1))
  from frame_trans[OF f1 t(2)] show "frame {e} s s'" by simp
  show "index_ok s' \<and> pos_kept s s' \<and> positioned s' e" if "index_ok s"
  proof -
    from st that have i1: "index_ok s1" and p1: "pos_kept s s1" by (simp_all add: step_ok_def)
    from t(3)[OF i1] t(4)[OF pos] p1 show ?thesis by (blast intro: pos_kept_trans)
  qed
  from add cur c en1 key
  show "\<exists>a c. entityObjs s' e = Some (en\<lparr>currentCell := Some a\<rparr>) \<and>
           cells s' (getCellKey ?x ?y) = Some a \<and> cellObjs s' a = Some c \<and> e \<in> entities c"
    by (auto simp: Cell_addEntity_def set_currentCell_def)
qed

lemma Entity_new_with_ok:
  assumes "gc_ok gc" and "sound s" and run: "Entity_new_with gc s x y = Some (e, s')"
  shows "step_ok s s'"
proof -
  let ?s1 = "s\<lparr>entityObjs := (entityObjs s)(nextEntity s \<mapsto> \<lparr>position = (x, y), currentCell = None\<rparr>),
                nextEntity := Suc (nextEntity s)\<rparr>"
  let ?s2 = "?s1\<lparr>randomCount := Suc (randomCount ?s1)\<rparr>"
  from run have e: "e = nextEntity s" and add: "Grid_addEntity_with gc ?s2 e = Some s'"
    by (auto simp: Entity_new_with_def Let_def Math_random_def split: option.splits)
  note a = alloc_entity_ok[where p = "(x, y)", OF assms(2) refl]
  from a(1) have st2: "step_ok s ?s2" by simp
  then have s2: "sound ?s2" and f2: "frame {} s ?s2" by (simp_all add: step_ok_def)
  have en2: "entityObjs ?s2 e = Some \<lparr>position = (x, y), currentCell = None\<rparr>" by (simp add: e)
  have cn: "currentCell \<lparr>position = (x, y), currentCell = None\<rparr> = None" by simp
  note g = Grid_addEntity_with_ok[OF assms(1) s2 en2 cn add]
  have "frame {e} s s'" using frame_trans[OF f2 g(2)] by simp
  then have f: "frame {} s s'" using a(2) e by (auto intro: frame_weaken)
  have "index_ok s' \<and> pos_kept s s'" if "index_ok s"
  proof -
    from st2 that have "index_ok ?s2" "pos_kept s ?s2" by (simp_all add: step_ok_def)
    with g(3) show ?thesis by (blast intro: pos_kept_trans)
  qed
  with g(1) f show ?thesis by (simp add: step_ok_def)
qed

lemma spawnLoop_ok:
  assumes "gc_ok gc"
  shows "sound s \<Longrightarrow> spawnLoop gc this treeChances n s = Some s' \<Longrightarrow> step_ok s s'"
proof (induction treeChances arbitrary: n s)
  case Nil
  then show ?case by (simp add: step_ok_refl)
next
  case (Cons treeData rest)
  show ?case
  proof (cases "n \<ge> 2")
    case True
    with Cons.prems show ?thesis by (simp add: step_ok_refl)
  next
    case False
    let ?s1 = "s\<lparr>randomCount := Suc (randomCount s)\<rparr>"
    have st1: "step_ok s ?s1" using Cons.prems(1) by (simp add: step_ok_refl)
    show ?thesis
    proof (cases "random s (randomCount s) < snd treeData * 1")
      case roll: False
      with False Cons.prems(2) have "spawnLoop gc this rest n ?s1 = Some s'"
        by (simp add: Math_random_def)
      from Cons.IH[OF _ this] Cons.prems(1) have "step_ok ?s1 s'" by simp
      with st1 show ?thesis by (rule step_ok_trans)
    next
      case roll: True
      let ?s3 = "?s1\<lparr>randomCount := Suc (Suc (Suc (randomCount s)))\<rparr>"
      from roll False Cons.prems(2) obtain c tree s4 where
        c: "cellObjs ?s1 this = Some c" and
        tree: "Game_createTree_with gc ?s3
                 (worldX c + cell_size c * random s (Suc (randomCount s)))
                 (worldY c + cell_size c * random s (Suc (Suc (randomCount s)))) (fst treeData)
               = Some (tree, s4)" and
        rest: "spawnLoop gc this rest (Suc n) s4 = Some s'"
        by (auto simp: Math_random_def Let_def split: option.splits)
      have s3: "sound ?s3" using Cons.prems(1) by simp
      have st3: "step_ok s ?s3" using Cons.prems(1) by (simp add: step_ok_refl)
      from tree have "Entity_new_with gc ?s3
                 (worldX c + cell_size c * random s (Suc (randomCount s)))
                 (worldY c + cell_size c * random s (Suc (Suc (randomCount s)))) = Some (tree, s4)"
        by (simp add: Game_createTree_with_def)
      from Entity_new_with_ok[OF assms s3 this] have st4: "step_ok ?s3 s4" .
      then have "sound s4" by (simp add: step_ok_def)
      from Cons.IH[OF this rest] have "step_ok s4 s'" .
      with st3 st4 show ?thesis by (blast intro: step_ok_trans)
    qed
  qed
qed

lemma spawnTreesHere_with_ok:
  assumes "gc_ok gc" and "sound s" and "spawnTreesHere_with gc s this = Some s'"
  shows "step_ok s s'"
proof (cases "cellObjs s this")
  case None
  with assms(3) show ?thesis by (simp add: spawnTreesHere_with_def)
next
  case (Some c)
  obtain treeChances warned where
    t: "collectTreeChances (height c) (soilFertility c) (temperature c) Tree_types = (treeChances, warned)"
    by (cases "collectTreeChances (height c) (soilFertility c) (temperature c) Tree_types")
  let ?s1 = "s\<lparr>console := console s @ warned\<rparr>"
  have st1: "step_ok s ?s1" and s1: "sound ?s1" using assms(2) by (simp_all add: step_ok_refl)
  from assms(3) Some t
  have eq: "(if water c then Some s
             else if treeChances = [] then Some ?s1
                  else spawnLoop gc this (sortTreeChances treeChances) 0 ?s1) = Some s'"
    by (simp add: spawnTreesHere_with_def Let_def cong: if_cong)
  show ?thesis
  proof (cases "water c")
    case True
    with eq have "s' = s" by simp
    with assms(2) show ?thesis by (simp add: step_ok_refl)
  next
    case False
    show ?thesis
    proof (cases "treeChances = []")
      case True
      with False eq have "s' = ?s1" by simp
      with st1 show ?thesis by simp
    next
      case ne: False
      with False eq have "spawnLoop gc this (sortTreeChances treeChances) 0 ?s1 = Some s'" by simp
      from spawnLoop_ok[OF assms(1) s1 this] st1 show ?thesis by (blast intro: step_ok_trans)
    qed
  qed
qed

lemma index_ok_cells [simp]: "index_ok (s\<lparr>cells := m\<rparr>) = index_ok s"
  by (simp add: index_ok_def)

lemma positioned_cells [simp]: "positioned (s\<lparr>cells := m\<rparr>) e = positioned s e"
  by (simp add: positioned_def)

lemma pos_kept_cells [simp]: "pos_kept s (s'\<lparr>cells := m\<rparr>) = pos_kept s s'"
  by (simp add: pos_kept_def)

lemma Cell_terrain_fields [simp]:
  "Cell_terrain (Cell_fields x y cs soil h temp) = Cell_fields x y cs soil h temp"
  by (simp add: Cell_terrain_def Cell_fields_def)

lemma Cell_fields_coords [simp]:
  "cell_x (Cell_fields x y cs soil h temp) = x" "cell_y (Cell_fields x y cs soil h temp) = y"
  "entities (Cell_fields x y cs soil h temp) = {}"
  by (simp_all add: Cell_fields_def)

lemma cellAt_simps [simp]:
  "cell_x (cellAt cs fs fh ft x y) = x" "cell_y (cellAt cs fs fh ft x y) = y"
  "entities (cellAt cs fs fh ft x y) = {}"
  "Cell_terrain (cellAt cs fs fh ft x y) = cellAt cs fs fh ft x y"
  by (simp_all add: cellAt_def)

text \<open>The constructor up to the call of \<open>spawnTreesHere\<close>: three samples and the new object.\<close>

lemma alloc_cell_ok:
  assumes "sound s"
    and n1: "noise (soilNoiseGenerator s)
               (real_of_int x * freq_soilFertility s) (real_of_int y * freq_soilFertility s) = (soil, g1)"
    and n2: "noise (heightNoiseGenerator s)
               (real_of_int x * freq_height s) (real_of_int y * freq_height s) = (h, g2)"
    and n3: "noise (temperatureNoiseGenerator s)
               (real_of_int x * freq_temperature s) (real_of_int y * freq_temperature s) = (temp, g3)"
    and s1: "s1 = s\<lparr>soilNoiseGenerator := g1, heightNoiseGenerator := g2,
                    temperatureNoiseGenerator := g3,
                    cellObjs := (cellObjs s)(nextCell s \<mapsto> Cell_fields x y (cellSize s) soil h temp),
                    nextCell := Suc (nextCell s)\<rparr>"
  shows "step_ok s s1" and "cellObjs s (nextCell s) = None"
    and "Cell_fields x y (cellSize s) soil h temp =
           cellAt (cellSize s) (freq_soilFertility s) (freq_height s) (freq_temperature s) x y"
proof -
  from assms(1) have t: "terrain_ok s" and m: "map_ok s" and al: "alloc_ok s"
    by (simp_all add: sound_def)
  from al show fresh: "cellObjs s (nextCell s) = None"
    unfolding alloc_ok_def by (cases "cellObjs s (nextCell s)") auto
  from t have c: "caches_ok (soilNoiseGenerator s)" "caches_ok (heightNoiseGenerator s)"
      "caches_ok (temperatureNoiseGenerator s)"
    and sd: "seed (soilNoiseGenerator s) = 123" "seed (heightNoiseGenerator s) = 456"
      "seed (temperatureNoiseGenerator s) = 789"
    by (simp_all add: terrain_ok_def)
  note r1 = noise_refines[OF c(1) n1] and r2 = noise_refines[OF c(2) n2]
    and r3 = noise_refines[OF c(3) n3]
  from r1 r2 r3 sd show eq: "Cell_fields x y (cellSize s) soil h temp =
           cellAt (cellSize s) (freq_soilFertility s) (freq_height s) (freq_temperature s) x y"
    by (simp add: cellAt_def)
  have "map_ok s1"
    using m fresh unfolding map_ok_def s1
    by (auto split: if_splits) (metis option.distinct(1))+
  moreover have "alloc_ok s1"
    using al unfolding alloc_ok_def s1 by (auto simp: less_Suc_eq split: if_splits)
  moreover have "terrain_ok s1"
    using t r1 r2 r3 sd eq unfolding terrain_ok_def s1 by (auto split: if_splits)
  ultimately have "sound s1" by (simp add: sound_def)
  moreover have "frame {} s s1"
    unfolding frame_def s1 using fresh by auto
  moreover have "index_ok s1 \<and> pos_kept s s1" if i: "index_ok s"
  proof
    show "index_ok s1"
      using i fresh unfolding index_ok_def s1
      by (auto split: if_splits) (metis option.distinct(1))+
    show "pos_kept s s1"
      using i fresh unfolding pos_kept_def positioned_def index_ok_def s1
      by (auto split: if_splits) (metis option.distinct(1))+
  qed
  ultimately show "step_ok s s1" by (simp add: step_ok_def)
qed

lemma Cell_new_with_ok:
  assumes "gc_ok gc" and "sound s" and run: "Cell_new_with gc s x y = Some (a, s')"
  shows "step_ok s s'" and "a = nextCell s" and "cellObjs s a = None"
    and "\<exists>c. cellObjs s' a = Some c \<and> cell_x c = x \<and> cell_y c = y"
proof -
  obtain soil g1 where n1: "noise (soilNoiseGenerator s)
      (real_of_int x * freq_soilFertility s) (real_of_int y * freq_soilFertility s) = (soil, g1)"
    by (cases "noise (soilNoiseGenerator s)
      (real_of_int x * freq_soilFertility s) (real_of_int y * freq_soilFertility s)")
  obtain h g2 where n2: "noise (heightNoiseGenerator s)
      (real_of_int x * freq_height s) (real_of_int y * freq_height s) = (h, g2)"
    by (cases "noise (heightNoiseGenerator s)
      (real_of_int x * freq_height s) (real_of_int y * freq_height s)")
  obtain temp g3 where n3: "noise (temperatureNoiseGenerator s)
      (real_of_int x * freq_temperature s) (real_of_int y * freq_temperature s) = (temp, g3)"
    by (cases "noise (temperatureNoiseGenerator s)
      (real_of_int x * freq_temperature s) (real_of_int y * freq_temperature s)")
  let ?s1 = "s\<lparr>soilNoiseGenerator := g1, heightNoiseGenerator := g2,
                temperatureNoiseGenerator := g3,
                cellObjs := (cellObjs s)(nextCell s \<mapsto> Cell_fields x y (cellSize s) soil h temp),
                nextCell := Suc (nextCell s)\<rparr>"
  from run n1 n2 n3 have a: "a = nextCell s" and sp: "spawnTreesHere_with gc ?s1 (nextCell s) = Some s'"
    by (auto simp: Cell_new_with_def Let_def split: option.splits)
  note al = alloc_cell_ok[OF assms(2) n1 n2 n3 refl]
  from al(1) have s1: "sound ?s1" by (simp add: step_ok_def)
  from spawnTreesHere_with_ok[OF assms(1) s1 sp] have st: "step_ok ?s1 s'" .
  with al(1) show "step_ok s s'" by (rule step_ok_trans)
  show "a = nextCell s" by (rule a)
  from al(2) a show "cellObjs s a = None" by simp
  have "cellObjs ?s1 a = Some (Cell_fields x y (cellSize s) soil h temp)" by (simp add: a)
  with st obtain c' where c': "cellObjs s' a = Some c'"
    "c'\<lparr>entities := {}\<rparr> = (Cell_fields x y (cellSize s) soil h temp)\<lparr>entities := {}\<rparr>"
    unfolding step_ok_def frame_def by blast
  from arg_cong[OF c'(2), of cell_x] arg_cong[OF c'(2), of cell_y]
  have "cell_x c' = x" "cell_y c' = y" by simp_all
  with c'(1) show "\<exists>c. cellObjs s' a = Some c \<and> cell_x c = x \<and> cell_y c = y" by blast
qed

lemma getCell_step_ok:
  assumes "gc_ok gc" and "sound s" and none: "cells s (getCellKey x y) = None"
    and run: "Cell_new_with gc s x y = Some (a, s1)"
  shows "step_ok s (s1\<lparr>cells := (cells s1)(getCellKey x y \<mapsto> a)\<rparr>)"
proof -
  note c = Cell_new_with_ok[OF assms(1,2) run]
  from c(1) have s1: "sound s1" and f1: "frame {} s s1" by (simp_all add: step_ok_def)
  from c(4) obtain cl where cl: "cellObjs s1 a = Some cl" "cell_x cl = x" "cell_y cl = y" by blast
  let ?s' = "s1\<lparr>cells := (cells s1)(getCellKey x y \<mapsto> a)\<rparr>"
  have "map_ok ?s'"
    using s1 cl unfolding sound_def map_ok_def by (auto split: if_splits)
  moreover have "alloc_ok ?s'" "terrain_ok ?s'"
    using s1 unfolding sound_def alloc_ok_def terrain_ok_def by simp_all
  ultimately have "sound ?s'" by (simp add: sound_def)
  moreover have "frame {} s ?s'"
    using f1 none unfolding frame_def by (auto split: if_splits)
  ultimately show ?thesis using c(1) by (simp add: step_ok_def)
qed

lemma getCell_ok: "gc_ok (getCell depth)"
proof (induction depth)
  case 0
  show ?case
    unfolding gc_ok_def by (auto simp: step_ok_refl split: option.splits)
next
  case (Suc depth)
  show ?case
    unfolding gc_ok_def
  proof (intro allI impI)
    fix s x y a s'
    assume snd: "sound s" and run: "getCell (Suc depth) s x y = Some (a, s')"
    show "step_ok s s' \<and> cells s' (getCellKey x y) = Some a"
    proof (cases "cells s (getCellKey x y)")
      case (Some b)
      with run snd show ?thesis by (simp add: step_ok_refl)
    next
      case None
      with run obtain s1 where
        new: "Cell_new_with (getCell depth) s x y = Some (a, s1)" and
        s': "s' = s1\<lparr>cells := (cells s1)(getCellKey x y \<mapsto> a)\<rparr>"
        by (auto split: option.splits)
      from getCell_step_ok[OF Suc snd None new] s' show ?thesis by simp
    qed
  qed
qed

section \<open>Every call keeps the store sound\<close>

lemma frame_config: "frame E s s' \<Longrightarrow> config s' = config s"
  by (simp add: frame_def config_def)

lemma sound_entityObjs_update:
  assumes "sound s" and "entityObjs s e = Some en"
  shows "sound (s\<lparr>entityObjs := (entityObjs s)(e \<mapsto> en')\<rparr>)"
  using assms unfolding sound_def map_ok_def alloc_ok_def terrain_ok_def
  by (auto split: if_splits)

lemma sound_cell_update:
  assumes "sound s" and "cellObjs s a = Some c" and "Cell_terrain c' = Cell_terrain c"
  shows "sound (s\<lparr>cellObjs := (cellObjs s)(a \<mapsto> c')\<rparr>)"
proof -
  from arg_cong[OF assms(3), of cell_x] arg_cong[OF assms(3), of cell_y]
  have xy: "cell_x c' = cell_x c" "cell_y c' = cell_y c" by (simp_all add: Cell_terrain_def)
  have "map_ok (s\<lparr>cellObjs := (cellObjs s)(a \<mapsto> c')\<rparr>)"
    using assms(1,2) xy unfolding sound_def map_ok_def
    by (auto split: if_splits) (metis option.inject)+
  moreover have "alloc_ok (s\<lparr>cellObjs := (cellObjs s)(a \<mapsto> c')\<rparr>)"
    using assms(1,2) unfolding sound_def alloc_ok_def by (auto split: if_splits)
  moreover have "terrain_ok (s\<lparr>cellObjs := (cellObjs s)(a \<mapsto> c')\<rparr>)"
    using assms xy unfolding sound_def terrain_ok_def by (auto split: if_splits)
  ultimately show ?thesis by (simp add: sound_def)
qed

lemma Cell_addEntity_sound:
  "sound s \<Longrightarrow> Cell_addEntity s a e = Some s' \<Longrightarrow> sound s' \<and> config s' = config s"
  by (auto simp: Cell_addEntity_def config_def Cell_terrain_def intro!: sound_cell_update
      split: option.splits)

lemma Cell_removeEntity_sound:
  "sound s \<Longrightarrow> Cell_removeEntity s a e = Some s' \<Longrightarrow> sound s' \<and> config s' = config s"
  by (auto simp: Cell_removeEntity_def config_def Cell_terrain_def intro!: sound_cell_update
      split: option.splits)

lemma set_currentCell_sound:
  "sound s \<Longrightarrow> set_currentCell s e v = Some s' \<Longrightarrow> sound s' \<and> config s' = config s"
  by (auto simp: set_currentCell_def config_def intro!: sound_entityObjs_update
      split: option.splits)

lemma Entity_moveTo_sound:
  "sound s \<Longrightarrow> Entity_moveTo s e x y = Some s' \<Longrightarrow> sound s' \<and> config s' = config s"
  by (auto simp: Entity_moveTo_def config_def intro!: sound_entityObjs_update
      split: option.splits)

lemma getCell_sound:
  assumes "sound s" and "getCell depth s x y = Some (a, s')"
  shows "sound s' \<and> config s' = config s"
  using getCell_ok[of depth] assms unfolding gc_ok_def step_ok_def
  by (blast intro: frame_config)

lemma getCellAtWorldPos_sound:
  assumes "sound s" and "getCellAtWorldPos depth s wx wy = Some (a, s')"
  shows "sound s' \<and> config s' = config s"
  using assms getCell_sound
  by (auto simp: getCellAtWorldPos_def getCellAtWorldPos_with_def split: prod.splits)

lemma Grid_addEntity_sound:
  assumes "sound s" and "Grid_addEntity depth s e = Some s'"
  shows "sound s' \<and> config s' = config s"
proof -
  from assms(2) obtain en :: Entity and a s1 s2 where
    g': "getCellAtWorldPos_with (getCell depth) s (fst (position en)) (snd (position en)) = Some (a, s1)" and
    ad: "Cell_addEntity s1 a e = Some s2" and
    cu: "set_currentCell s2 e (Some a) = Some s'"
    by (auto simp: Grid_addEntity_def Grid_addEntity_with_def split: option.splits)
  from g' have g: "getCellAtWorldPos depth s (fst (position en)) (snd (position en)) = Some (a, s1)"
    by (simp add: getCellAtWorldPos_def)
  from getCellAtWorldPos_sound[OF assms(1) g] have 1: "sound s1" "config s1 = config s" by simp_all
  from Cell_addEntity_sound[OF 1(1) ad] have 2: "sound s2" "config s2 = config s1" by simp_all
  from set_currentCell_sound[OF 2(1) cu] 1 2 show ?thesis by simp
qed

lemma Grid_removeEntity_sound:
  assumes "sound s" and "Grid_removeEntity s e = Some s'"
  shows "sound s' \<and> config s' = config s"
proof -
  from assms(2) obtain en where en: "entityObjs s e = Some en"
    by (auto simp: Grid_removeEntity_def split: option.splits)
  show ?thesis
  proof (cases "currentCell en")
    case None
    with assms en show ?thesis by (simp add: Grid_removeEntity_def)
  next
    case (Some a)
    with assms(2) en obtain s1 where
      r: "Cell_removeEntity s a e = Some s1" and cu: "set_currentCell s1 e None = Some s'"
      by (auto simp: Grid_removeEntity_def split: option.splits)
    from Cell_removeEntity_sound[OF assms(1) r] have 1: "sound s1" "config s1 = config s" by simp_all
    from set_currentCell_sound[OF 1(1) cu] 1 show ?thesis by simp
  qed
qed

lemma Grid_updateEntity_sound:
  assumes "sound s" and "Grid_updateEntity depth s e = Some s'"
  shows "sound s' \<and> config s' = config s"
proof -
  from assms(2) obtain en where en: "entityObjs s e = Some en"
    by (cases "entityObjs s e") (simp_all add: Grid_updateEntity_def)
  with assms(2) obtain a s1 where
    g: "getCellAtWorldPos depth s (fst (position en)) (snd (position en)) = Some (a, s1)"
    by (cases "getCellAtWorldPos depth s (fst (position en)) (snd (position en))")
       (auto simp: Grid_updateEntity_def)
  with assms(2) en obtain en1 where en1: "entityObjs s1 e = Some en1"
    by (cases "entityObjs s1 e") (simp_all add: Grid_updateEntity_def)
  with assms(2) en g have
    rest: "(if currentCell en1 \<noteq> Some a then
              (case (case currentCell en1 of None \<Rightarrow> Some s1
                     | Some old \<Rightarrow> Cell_removeEntity s1 old e) of
                 None \<Rightarrow> None
               | Some s2 \<Rightarrow> (case Cell_addEntity s2 a e of None \<Rightarrow> None
                             | Some s3 \<Rightarrow> set_currentCell s3 e (Some a)))
            else Some s1) = Some s'"
    by (simp add: Grid_updateEntity_def)
  from getCellAtWorldPos_sound[OF assms(1) g] have 1: "sound s1" "config s1 = config s" by simp_all
  show ?thesis
  proof (cases "currentCell en1 \<noteq> Some a")
    case False
    with rest 1 show ?thesis by simp
  next
    case True
    with rest obtain s2 s3 where
      r: "(case currentCell en1 of None \<Rightarrow> Some s1 | Some old \<Rightarrow> Cell_removeEntity s1 old e) = Some s2"
      and ad: "Cell_addEntity s2 a e = Some s3" and cu: "set_currentCell s3 e (Some a) = Some s'"
      by (auto split: option.splits)
    from r 1 have 2: "sound s2 \<and> config s2 = config s1"
      by (cases "currentCell en1") (auto dest: Cell_removeEntity_sound)
    from Cell_addEntity_sound[OF _ ad] 2 have 3: "sound s3" "config s3 = config s2" by simp_all
    from set_currentCell_sound[OF 3(1) cu] 1 2 3 show ?thesis by simp
  qed
qed

lemma Grid_clear_sound: "sound s \<Longrightarrow> sound (Grid_clear s) \<and> config (Grid_clear s) = config s"
  unfolding sound_def map_ok_def alloc_ok_def terrain_ok_def Grid_clear_def config_def
  by (auto simp: Cell_clear_def Cell_terrain_def split: if_splits)

lemma Entity_new_sound:
  assumes "sound s" and "Entity_new depth s x y = Some (e, s')"
  shows "sound s' \<and> config s' = config s"
  using Entity_new_with_ok[OF getCell_ok assms(1)] assms(2)
  unfolding Entity_new_def step_ok_def by (blast intro: frame_config)

lemma getNeighborsInRadius_sound:
  assumes "sound s" and "getNeighborsInRadius s this r = Some (ns, s')"
  shows "sound s' \<and> config s' = config s"
  using assms
  by (auto simp: getNeighborsInRadius_def Let_def config_def Cell_terrain_def
      intro!: sound_cell_update split: option.splits)

lemma calculateFlowDirection_sound:
  assumes "sound s" and "calculateFlowDirection s this = Some (fd, s')"
  shows "sound s' \<and> config s' = config s"
proof -
  from assms(2) obtain ns s1 c where
    n: "getNeighborsInRadius s this 3 = Some (ns, s1)" and c: "cellObjs s1 this = Some c" and
    s': "s' = s1\<lparr>cellObjs := (cellObjs s1)(this \<mapsto> c\<lparr>flowDirection := fd\<rparr>)\<rparr>"
    by (auto simp: calculateFlowDirection_def Let_def split: option.splits)
  from getNeighborsInRadius_sound[OF assms(1) n] have 1: "sound s1" "config s1 = config s" by simp_all
  have "sound s'" unfolding s' by (rule sound_cell_update[OF 1(1) c]) (simp add: Cell_terrain_def)
  with 1 s' show ?thesis by (simp add: config_def)
qed

lemma getFlowDirection_sound:
  assumes "sound s" and "getFlowDirection s this = Some (fd, s')"
  shows "sound s' \<and> config s' = config s"
proof -
  from assms(2) obtain c where c: "cellObjs s this = Some c"
    by (auto simp: getFlowDirection_def split: option.splits)
  show ?thesis
  proof (cases "flowDirectionCalculated c")
    case True
    with assms c show ?thesis by (simp add: getFlowDirection_def)
  next
    case False
    with assms(2) c obtain s1 c1 where
      f: "calculateFlowDirection s this = Some (fd, s1)" and c1: "cellObjs s1 this = Some c1" and
      s': "s' = s1\<lparr>cellObjs := (cellObjs s1)(this \<mapsto> c1\<lparr>flowDirection := fd, flowDirectionCalculated := True\<rparr>)\<rparr>"
      by (auto simp: getFlowDirection_def split: option.splits)
    from calculateFlowDirection_sound[OF assms(1) f] have 1: "sound s1" "config s1 = config s" by simp_all
    have "sound s'" unfolding s' by (rule sound_cell_update[OF 1(1) c1]) (simp add: Cell_terrain_def)
    with 1 s' show ?thesis by (simp add: config_def)
  qed
qed

lemma recalculateFlowDirection_sound:
  assumes "sound s" and "recalculateFlowDirection s this = Some s'"
  shows "sound s' \<and> config s' = config s"
proof -
  from assms(2) obtain fd s1 c1 where
    f: "calculateFlowDirection s this = Some (fd, s1)" and c1: "cellObjs s1 this = Some c1" and
    s': "s' = s1\<lparr>cellObjs := (cellObjs s1)(this \<mapsto> c1\<lparr>flowDirection := fd, flowDirectionCalculated := True\<rparr>)\<rparr>"
    by (auto simp: recalculateFlowDirection_def split: option.splits)
  from calculateFlowDirection_sound[OF assms(1) f] have 1: "sound s1" "config s1 = config s" by simp_all
  have "sound s'" unfolding s' by (rule sound_cell_update[OF 1(1) c1]) (simp add: Cell_terrain_def)
  with 1 s' show ?thesis by (simp add: config_def)
qed

lemma grid_step_sound:
  assumes "sound s" and "grid_step depth s c = Some s'"
  shows "sound s' \<and> config s' = config s"
proof (cases c)
  case (AddEntity e x y)
  with assms(2) obtain s1 where m: "Entity_moveTo s e x y = Some s1" and
    r: "Grid_addEntity depth s1 e = Some s'" by (auto split: option.splits)
  from Entity_moveTo_sound[OF assms(1) m] Grid_addEntity_sound[OF _ r] show ?thesis by simp
next
  case (UpdateEntity e x y)
  with assms(2) obtain s1 where m: "Entity_moveTo s e x y = Some s1" and
    r: "Grid_updateEntity depth s1 e = Some s'" by (auto split: option.splits)
  from Entity_moveTo_sound[OF assms(1) m] Grid_updateEntity_sound[OF _ r] show ?thesis by simp
next
  case (RemoveEntity e x y)
  with assms(2) obtain s1 where m: "Entity_moveTo s e x y = Some s1" and
    r: "Grid_removeEntity s1 e = Some s'" by (auto split: option.splits)
  from Entity_moveTo_sound[OF assms(1) m] Grid_removeEntity_sound[OF _ r] show ?thesis by simp
qed

lemma api_step_sound:
  assumes "sound s" and "api_step depth s c = Some s'"
  shows "sound s' \<and> config s' = config s"
proof (cases c)
  case (GetCell x y)
  with assms show ?thesis by (auto dest: getCell_sound)
next
  case (GetCellAtWorldPos wx wy)
  with assms show ?thesis by (auto dest: getCellAtWorldPos_sound)
next
  case (IndexCall g)
  with assms show ?thesis by (auto dest: grid_step_sound)
next
  case Clear
  with assms show ?thesis by (auto dest: Grid_clear_sound)
next
  case (NewEntity x y)
  with assms show ?thesis by (auto dest: Entity_new_sound)
next
  case (GetNeighborsInRadius this r)
  with assms show ?thesis by (auto dest: getNeighborsInRadius_sound)
next
  case (GetFlowDirection this)
  with assms show ?thesis by (auto dest: getFlowDirection_sound)
next
  case (RecalculateFlowDirection this)
  with assms show ?thesis by (auto dest: recalculateFlowDirection_sound)
next
  case (GetEntitiesInRadius cx cy r)
  with assms show ?thesis by (simp add: getEntitiesInRadius_def Let_def)
next
  case (GetEntitiesInArea x y w h)
  with assms show ?thesis by (simp add: getEntitiesInArea_def Let_def)
qed

lemma api_run_sound:
  "sound s \<Longrightarrow> api_run depth s calls = Some s' \<Longrightarrow> sound s' \<and> config s' = config s"
proof (induction calls arbitrary: s)
  case Nil
  then show ?case by simp
next
  case (Cons c calls)
  from Cons.prems(2) obtain s1 where 1: "api_step depth s c = Some s1"
    and 2: "api_run depth s1 calls = Some s'" by (auto split: option.splits)
  from api_step_sound[OF Cons.prems(1) 1] Cons.IH[OF _ 2] show ?case by simp
qed

lemma PerlinNoise_new_seed [simp]: "seed (PerlinNoise_new sd) = sd"
  by (simp add: PerlinNoise_new_def)

lemma Grid_new_sound:
  assumes "\<forall>e en. es e = Some en \<longrightarrow> e < ne"
  shows "sound (Grid_new cs fs fh ft es ne rnd)"
  using assms unfolding sound_def map_ok_def alloc_ok_def terrain_ok_def Grid_new_def
  by (auto simp: caches_ok_new)

lemma reachable_sound:
  assumes "reachable cs fs fh ft s"
  shows "sound s \<and> config s = (cs, fs, fh, ft)"
proof -
  from assms obtain es ne rnd depth calls where
    a: "\<forall>e en. es e = Some en \<longrightarrow> e < ne" and
    r: "api_run depth (Grid_new cs fs fh ft es ne rnd) calls = Some s"
    unfolding reachable_def by blast
  from api_run_sound[OF Grid_new_sound[OF a] r] show ?thesis
    by (simp add: config_def Grid_new_def)
qed

section \<open>A constructor call that spawns nothing\<close>

lemma collectTreeChances_bound:
  "t \<in> set (fst (collectTreeChances h soil temp types)) \<Longrightarrow> snd t \<le> 3/10"
proof (induction types)
  case Nil
  then show ?case by simp
next
  case (Cons ty types)
  obtain ch w where c: "calculateTreeSpawnChance h soil temp ty = (ch, w)"
    by (cases "calculateTreeSpawnChance h soil temp ty")
  show ?case
  proof (cases "t \<in> set (fst (collectTreeChances h soil temp types))")
    case True
    then show ?thesis by (rule Cons.IH)
  next
    case False
    with Cons.prems c have t: "js_positive ch" "t = (ty, num_of ch)"
      by (auto simp: split_beta Let_def split: if_splits)
    then obtain v where "ch = Num v" by (cases ch) auto
    with c t calculateTreeSpawnChance_bound[of h soil temp ty v w] show ?thesis by simp
  qed
qed

lemma quiet_all: "\<forall>i. 3/10 \<le> random s i \<Longrightarrow> quiet s"
  by (simp add: quiet_def)

lemma spawnLoop_no_spawn:
  assumes "quiet s" and "\<forall>t\<in>set l. snd t \<le> 3/10"
  shows "spawnLoop gc this l 0 s = Some (s\<lparr>randomCount := randomCount s + length l\<rparr>)"
  using assms
proof (induction l arbitrary: s)
  case Nil
  then show ?case by simp
next
  case (Cons t l)
  let ?s1 = "s\<lparr>randomCount := Suc (randomCount s)\<rparr>"
  have "snd t \<le> 3/10" using Cons.prems(2) by simp
  moreover have "3/10 \<le> random s (randomCount s)" using Cons.prems(1) by (simp add: quiet_def)
  ultimately have "\<not> random s (randomCount s) < snd t * 1" by linarith
  then have "spawnLoop gc this (t # l) 0 s = spawnLoop gc this l 0 ?s1"
    by (simp add: Math_random_def)
  also have "\<dots> = Some (?s1\<lparr>randomCount := randomCount ?s1 + length l\<rparr>)"
    using Cons.prems by (intro Cons.IH) (simp_all add: quiet_def)
  finally show ?case by simp
qed

lemma spawnTreesHere_with_no_spawn:
  assumes "quiet s" and "cellObjs s this = Some c"
  shows "\<exists>k w. spawnTreesHere_with gc s this =
           Some (s\<lparr>console := console s @ w, randomCount := randomCount s + k\<rparr>)"
proof -
  obtain treeChances warned where
    t: "collectTreeChances (height c) (soilFertility c) (temperature c) Tree_types = (treeChances, warned)"
    by (cases "collectTreeChances (height c) (soilFertility c) (temperature c) Tree_types")
  let ?s1 = "s\<lparr>console := console s @ warned\<rparr>"
  from assms(2) t
  have eq: "spawnTreesHere_with gc s this =
            (if water c then Some s
             else if treeChances = [] then Some ?s1
                  else spawnLoop gc this (sortTreeChances treeChances) 0 ?s1)"
    by (simp add: spawnTreesHere_with_def Let_def cong: if_cong)
  have b: "\<forall>t\<in>set (sortTreeChances treeChances). snd t \<le> 3/10"
    using collectTreeChances_bound[of _ "height c" "soilFertility c" "temperature c" Tree_types] t
    by (simp add: sortTreeChances_def)
  have r: "quiet ?s1" using assms(1) by (simp add: quiet_def)
  note l = spawnLoop_no_spawn[OF r b, of gc this]
  have z: "s = s\<lparr>console := console s @ [], randomCount := randomCount s + 0\<rparr>" by simp
  have z1: "?s1 = s\<lparr>console := console s @ warned, randomCount := randomCount s + 0\<rparr>" by simp
  show ?thesis
  proof (cases "water c")
    case True
    with eq z show ?thesis by (metis (no_types))
  next
    case False
    show ?thesis
    proof (cases "treeChances = []")
      case True
      with False eq z1 show ?thesis by (metis (no_types))
    next
      case ne: False
      with False eq l have "spawnTreesHere_with gc s this =
        Some (s\<lparr>console := console s @ warned,
               randomCount := randomCount s + length (sortTreeChances treeChances)\<rparr>)"
        by simp
      then show ?thesis by blast
    qed
  qed
qed

text \<open>
  \<open>getCell\<close> on coordinates without a cell, when every random number is at least 0.3 (no
  roll can succeed, a chance being at most 0.3): the new object is the cell of the
  configuration at these coordinates, it is stored under the key, and no other object
  changes.
\<close>

lemma getCell_new_quiet:
  assumes "sound s" and none: "cells s (getCellKey x y) = None" and quiet: "quiet s"
  shows "\<exists>s'. getCell (Suc depth) s x y = Some (nextCell s, s') \<and>
           cells s' = (cells s)(getCellKey x y \<mapsto> nextCell s) \<and>
           cellObjs s' = (cellObjs s)(nextCell s \<mapsto>
              cellAt (cellSize s) (freq_soilFertility s) (freq_height s) (freq_temperature s) x y) \<and>
           entityObjs s' = entityObjs s \<and> nextCell s' = Suc (nextCell s) \<and>
           nextEntity s' = nextEntity s \<and> config s' = config s \<and> random s' = random s \<and> sound s' \<and>
           quiet s'"
proof -
  obtain soil g1 where n1: "noise (soilNoiseGenerator s)
      (real_of_int x * freq_soilFertility s) (real_of_int y * freq_soilFertility s) = (soil, g1)"
    by (cases "noise (soilNoiseGenerator s)
      (real_of_int x * freq_soilFertility s) (real_of_int y * freq_soilFertility s)")
  obtain h g2 where n2: "noise (heightNoiseGenerator s)
      (real_of_int x * freq_height s) (real_of_int y * freq_height s) = (h, g2)"
    by (cases "noise (heightNoiseGenerator s)
      (real_of_int x * freq_height s) (real_of_int y * freq_height s)")
  obtain temp g3 where n3: "noise (temperatureNoiseGenerator s)
      (real_of_int x * freq_temperature s) (real_of_int y * freq_temperature s) = (temp, g3)"
    by (cases "noise (temperatureNoiseGenerator s)
      (real_of_int x * freq_temperature s) (real_of_int y * freq_temperature s)")
  let ?c = "Cell_fields x y (cellSize s) soil h temp"
  let ?s1 = "s\<lparr>soilNoiseGenerator := g1, heightNoiseGenerator := g2,
                temperatureNoiseGenerator := g3,
                cellObjs := (cellObjs s)(nextCell s \<mapsto> ?c),
                nextCell := Suc (nextCell s)\<rparr>"
  note al = alloc_cell_ok[OF assms(1) n1 n2 n3 refl]
  have q1: "quiet ?s1" using quiet by (simp add: quiet_def)
  have c1: "cellObjs ?s1 (nextCell s) = Some ?c" by simp
  from spawnTreesHere_with_no_spawn[OF q1 c1, of "getCell depth"] obtain k w where
    sp: "spawnTreesHere_with (getCell depth) ?s1 (nextCell s) =
           Some (?s1\<lparr>console := console ?s1 @ w, randomCount := randomCount ?s1 + k\<rparr>)"
    by blast
  let ?s2 = "?s1\<lparr>console := console ?s1 @ w, randomCount := randomCount ?s1 + k\<rparr>"
  let ?s' = "?s2\<lparr>cells := (cells ?s2)(getCellKey x y \<mapsto> nextCell s)\<rparr>"
  from n1 n2 n3 sp have new: "Cell_new_with (getCell depth) s x y = Some (nextCell s, ?s2)"
    by (simp add: Cell_new_with_def Let_def)
  with none have run: "getCell (Suc depth) s x y = Some (nextCell s, ?s')" by simp
  from getCell_sound[OF assms(1) run] have "sound ?s'" by simp
  moreover have "quiet ?s'" using quiet by (simp add: quiet_def)
  ultimately show ?thesis using run al(3) by (intro exI[of _ ?s']) (simp add: config_def)
qed

lemma getCell_found:
  "cells s (getCellKey x y) = Some a \<Longrightarrow> getCell depth s x y = Some (a, s)"
  by (cases depth) simp_all

section \<open>Determinism of the terrain\<close>

lemma reachable_Grid_new:
  "\<forall>e en. es e = Some en \<longrightarrow> e < ne \<Longrightarrow> reachable cs fs fh ft (Grid_new cs fs fh ft es ne rnd)"
  unfolding reachable_def
  by (intro exI[of _ es] exI[of _ ne] exI[of _ rnd] exI[of _ 0] exI[of _ "[]"]) simp

lemma Cell_terrain_fields_of:
  "soilFertility (Cell_terrain c) = soilFertility c" "height (Cell_terrain c) = height c"
  "temperature (Cell_terrain c) = temperature c" "water (Cell_terrain c) = water c"
  "beach (Cell_terrain c) = beach c" "frozen (Cell_terrain c) = frozen c"
  "desert (Cell_terrain c) = desert c" "cell_x (Cell_terrain c) = cell_x c"
  "cell_y (Cell_terrain c) = cell_y c"
  by (simp_all add: Cell_terrain_def)

lemma getCell_terrain:
  assumes "sound s" and "getCell depth s x y = Some (a, s')"
  shows "\<exists>c. cellObjs s' a = Some c \<and>
           Cell_terrain c = cellAt (cellSize s) (freq_soilFertility s) (freq_height s)
                              (freq_temperature s) x y"
proof -
  from getCell_ok[of depth] assms have k: "cells s' (getCellKey x y) = Some a"
    unfolding gc_ok_def by blast
  from getCell_sound[OF assms] have s': "sound s'" and cf: "config s' = config s" by simp_all
  from sound_cell_at_key[OF s' k] obtain c where
    c: "cellObjs s' a = Some c" "cell_x c = x" "cell_y c = y" by blast
  from s' c cf show ?thesis unfolding sound_def terrain_ok_def config_def by auto
qed

text \<open>
  C7. For two Grid instances of the same configuration, in whatever states their programs
  have brought them, \<open>getCell(x, y)\<close> returns cells of equal fertility, height,
  temperature and flags: each has the terrain \<open>cellAt\<close> of the configuration. A second
  call on the same instance returns the same object and changes nothing.
\<close>

theorem terrain_deterministic:
  assumes "reachable cs fs fh ft s1" and "reachable cs fs fh ft s2"
    and "getCell d1 s1 x y = Some (a1, t1)" and "getCell d2 s2 x y = Some (a2, t2)"
  shows "\<exists>c1 c2. cellObjs t1 a1 = Some c1 \<and> cellObjs t2 a2 = Some c2 \<and>
           soilFertility c1 = soilFertility c2 \<and> height c1 = height c2 \<and>
           temperature c1 = temperature c2 \<and>
           water c1 = water c2 \<and> beach c1 = beach c2 \<and>
           frozen c1 = frozen c2 \<and> desert c1 = desert c2 \<and>
           Cell_terrain c1 = cellAt cs fs fh ft x y \<and> Cell_terrain c2 = cellAt cs fs fh ft x y \<and>
           getCell d t1 x y = Some (a1, t1)"
proof -
  from reachable_sound[OF assms(1)] have 1: "sound s1" "config s1 = (cs, fs, fh, ft)" by simp_all
  from reachable_sound[OF assms(2)] have 2: "sound s2" "config s2 = (cs, fs, fh, ft)" by simp_all
  from getCell_terrain[OF 1(1) assms(3)] 1(2) obtain c1 where
    c1: "cellObjs t1 a1 = Some c1" "Cell_terrain c1 = cellAt cs fs fh ft x y"
    by (auto simp: config_def)
  from getCell_terrain[OF 2(1) assms(4)] 2(2) obtain c2 where
    c2: "cellObjs t2 a2 = Some c2" "Cell_terrain c2 = cellAt cs fs fh ft x y"
    by (auto simp: config_def)
  from c1(2) c2(2) have e: "Cell_terrain c1 = Cell_terrain c2" by simp
  from getCell_ok[of d1] 1(1) assms(3) have "cells t1 (getCellKey x y) = Some a1"
    unfolding gc_ok_def by blast
  then have again: "getCell d t1 x y = Some (a1, t1)" by (rule getCell_found)
  from arg_cong[OF e, of soilFertility] arg_cong[OF e, of height] arg_cong[OF e, of temperature]
    arg_cong[OF e, of water] arg_cong[OF e, of beach] arg_cong[OF e, of frozen]
    arg_cong[OF e, of desert]
  have f: "soilFertility c1 = soilFertility c2" "height c1 = height c2"
    "temperature c1 = temperature c2" "water c1 = water c2" "beach c1 = beach c2"
    "frozen c1 = frozen c2" "desert c1 = desert c2"
    by (simp_all add: Cell_terrain_fields_of)
  with c1 c2 again show ?thesis by simp
qed

section \<open>Index calls evaluated\<close>

lemma Grid_addEntity_found:
  assumes "entityObjs s e = Some en"
    and "cells s (getCellKey \<lfloor>fst (position en) / cellSize s\<rfloor> \<lfloor>snd (position en) / cellSize s\<rfloor>) = Some a"
    and "cellObjs s a = Some c"
  shows "Grid_addEntity depth s e =
           Some (s\<lparr>cellObjs := (cellObjs s)(a \<mapsto> c\<lparr>entities := insert e (entities c)\<rparr>),
                  entityObjs := (entityObjs s)(e \<mapsto> en\<lparr>currentCell := Some a\<rparr>)\<rparr>)"
  using assms getCell_found[OF assms(2), of depth]
  by (simp add: Grid_addEntity_def Grid_addEntity_with_def getCellAtWorldPos_with_def
      worldToCell_def Cell_addEntity_def set_currentCell_def)

lemma Grid_addEntity_quiet:
  assumes "sound s" and quiet: "quiet s" and en: "entityObjs s e = Some en"
    and none: "cells s (getCellKey \<lfloor>fst (position en) / cellSize s\<rfloor> \<lfloor>snd (position en) / cellSize s\<rfloor>) = None"
  shows "\<exists>s'. Grid_addEntity (Suc depth) s e = Some s' \<and>
           cells s' = (cells s)(getCellKey \<lfloor>fst (position en) / cellSize s\<rfloor>
                                           \<lfloor>snd (position en) / cellSize s\<rfloor> \<mapsto> nextCell s) \<and>
           cellObjs s' = (cellObjs s)(nextCell s \<mapsto>
              (cellAt (cellSize s) (freq_soilFertility s) (freq_height s) (freq_temperature s)
                 \<lfloor>fst (position en) / cellSize s\<rfloor> \<lfloor>snd (position en) / cellSize s\<rfloor>)
              \<lparr>entities := {e}\<rparr>) \<and>
           entityObjs s' = (entityObjs s)(e \<mapsto> en\<lparr>currentCell := Some (nextCell s)\<rparr>) \<and>
           nextCell s' = Suc (nextCell s) \<and> nextEntity s' = nextEntity s \<and>
           config s' = config s \<and> random s' = random s \<and> sound s' \<and> quiet s'"
proof -
  let ?x = "\<lfloor>fst (position en) / cellSize s\<rfloor>" and ?y = "\<lfloor>snd (position en) / cellSize s\<rfloor>"
  from getCell_new_quiet[OF assms(1) none quiet, of depth] obtain s1 where
    g: "getCell (Suc depth) s ?x ?y = Some (nextCell s, s1)" and
    f: "cells s1 = (cells s)(getCellKey ?x ?y \<mapsto> nextCell s)"
       "cellObjs s1 = (cellObjs s)(nextCell s \<mapsto>
              cellAt (cellSize s) (freq_soilFertility s) (freq_height s) (freq_temperature s) ?x ?y)"
       "entityObjs s1 = entityObjs s" "nextCell s1 = Suc (nextCell s)"
       "nextEntity s1 = nextEntity s" "config s1 = config s" "random s1 = random s" "sound s1"
       "quiet s1"
    by blast
  let ?c = "cellAt (cellSize s) (freq_soilFertility s) (freq_height s) (freq_temperature s) ?x ?y"
  let ?s' = "s1\<lparr>cellObjs := (cellObjs s1)(nextCell s \<mapsto> ?c\<lparr>entities := insert e (entities ?c)\<rparr>),
                entityObjs := (entityObjs s1)(e \<mapsto> en\<lparr>currentCell := Some (nextCell s)\<rparr>)\<rparr>"
  from g f en have run: "Grid_addEntity (Suc depth) s e = Some ?s'"
    by (simp add: Grid_addEntity_def Grid_addEntity_with_def getCellAtWorldPos_with_def
        worldToCell_def Cell_addEntity_def set_currentCell_def)
  from Grid_addEntity_sound[OF assms(1) run] have "sound ?s'" by simp
  moreover have "quiet ?s'" using f(9) by (simp add: quiet_def)
  ultimately show ?thesis using run f by (intro exI[of _ ?s']) (simp add: config_def)
qed

lemma floor_3_50: "\<lfloor>(3::real) / 50\<rfloor> = 0" and floor_4_50: "\<lfloor>(4::real) / 50\<rfloor> = 0"
  by (simp_all add: floor_eq_iff)

lemma example_grid_sound: "sound example_grid"
  unfolding example_grid_def by (rule Grid_new_sound) simp

lemma other_grid_sound: "sound other_grid"
  unfolding other_grid_def by (rule Grid_new_sound) (simp split: if_splits)

text \<open>The other program adds its entity at (3, 4): the cell (0, 0) is made and holds it.\<close>

lemma other_grid_add:
  "\<exists>s'. api_run 1 other_grid [IndexCall (AddEntity 0 3 4)] = Some s' \<and>
      cells s' = [getCellKey 0 0 \<mapsto> 0] \<and>
      cellObjs s' = [0 \<mapsto> (cellAt 50 1 1 1 0 0)\<lparr>entities := {0}\<rparr>] \<and>
      entityObjs s' = [0 \<mapsto> \<lparr>position = (3, 4), currentCell = Some 0\<rparr>] \<and>
      cellSize s' = 50 \<and> sound s'"
proof -
  let ?m = "other_grid\<lparr>entityObjs := (entityObjs other_grid)(0 \<mapsto> \<lparr>position = (3, 4), currentCell = None\<rparr>)\<rparr>"
  have m: "Entity_moveTo other_grid 0 3 4 = Some ?m"
    by (simp add: Entity_moveTo_def other_grid_def Grid_new_def)
  from Entity_moveTo_sound[OF other_grid_sound m] have sm: "sound ?m" by simp
  have q: "quiet ?m" by (simp add: quiet_def other_grid_def Grid_new_def)
  have en: "entityObjs ?m 0 = Some \<lparr>position = (3, 4), currentCell = None\<rparr>" by simp
  have none: "cells ?m (getCellKey \<lfloor>fst (position \<lparr>position = (3::real, 4::real), currentCell = None\<rparr>) / cellSize ?m\<rfloor>
                 \<lfloor>snd (position \<lparr>position = (3::real, 4::real), currentCell = None\<rparr>) / cellSize ?m\<rfloor>) = None"
    by (simp add: other_grid_def Grid_new_def)
  from Grid_addEntity_quiet[OF sm q en none, of 0] obtain s' where
    r: "Grid_addEntity 1 ?m 0 = Some s'" and
    f: "cells s' = [getCellKey 0 0 \<mapsto> 0]"
       "cellObjs s' = [0 \<mapsto> (cellAt 50 1 1 1 0 0)\<lparr>entities := {0}\<rparr>]"
       "entityObjs s' = [0 \<mapsto> \<lparr>position = (3, 4), currentCell = Some 0\<rparr>]"
       "config s' = config ?m" "sound s'"
    by (auto simp: other_grid_def Grid_new_def floor_3_50 floor_4_50)
  from f(4) have "cellSize s' = 50" by (simp add: config_def other_grid_def Grid_new_def)
  with m r f show ?thesis by simp
qed

theorem terrain_deterministic_witness:
  "reachable 50 1 1 1 example_grid \<and>
   reachable 50 1 1 1 (the (api_run 1 other_grid [IndexCall (AddEntity 0 3 4)])) \<and>
   returned_cell (getCell 1 example_grid 0 0) \<noteq> None \<and>
   returned_cell (getCell 0 (the (api_run 1 other_grid [IndexCall (AddEntity 0 3 4)])) 0 0) \<noteq> None \<and>
   map_option height (returned_cell (getCell 1 example_grid 0 0)) =
   map_option height (returned_cell
     (getCell 0 (the (api_run 1 other_grid [IndexCall (AddEntity 0 3 4)])) 0 0)) \<and>
   map_option Cell_terrain (returned_cell (getCell 1 example_grid 0 0)) =
   map_option Cell_terrain (returned_cell
     (getCell 0 (the (api_run 1 other_grid [IndexCall (AddEntity 0 3 4)])) 0 0))"
proof -
  let ?s2 = "the (api_run 1 other_grid [IndexCall (AddEntity 0 3 4)])"
  have r1: "reachable 50 1 1 1 example_grid"
    unfolding example_grid_def by (rule reachable_Grid_new) simp
  from other_grid_add obtain s' where
    run: "api_run 1 other_grid [IndexCall (AddEntity 0 3 4)] = Some s'" and
    k: "cells s' (getCellKey 0 0) = Some 0" by auto
  have r2: "reachable 50 1 1 1 ?s2"
    unfolding reachable_def other_grid_def[symmetric]
    apply (rule exI[of _ "[0 \<mapsto> \<lparr>position = (3, 4), currentCell = None\<rparr>]"])
    apply (rule exI[of _ 1])
    apply (rule exI[of _ "\<lambda>i. 9/10"])
    apply (rule exI[of _ 1])
    apply (rule exI[of _ "[IndexCall (AddEntity 0 3 4)]"])
    using run by (simp add: other_grid_def split: if_splits)
  have q: "quiet example_grid" by (simp add: quiet_def example_grid_def Grid_new_def)
  have none: "cells example_grid (getCellKey 0 0) = None" by (simp add: example_grid_def Grid_new_def)
  from getCell_new_quiet[OF example_grid_sound none q, of 0] obtain t1 where
    g1: "getCell 1 example_grid 0 0 = Some (nextCell example_grid, t1)" by auto
  from k run have g2: "getCell 0 ?s2 0 0 = Some (0, ?s2)" by (simp add: getCell_found)
  from terrain_deterministic[OF r1 r2 g1 g2, of 0] obtain c1 c2 where
    c: "cellObjs t1 (nextCell example_grid) = Some c1" "cellObjs ?s2 0 = Some c2"
       "height c1 = height c2" "Cell_terrain c1 = cellAt 50 1 1 1 0 0"
       "Cell_terrain c2 = cellAt 50 1 1 1 0 0"
    by blast
  have rc1: "returned_cell (getCell 1 example_grid 0 0) = Some c1"
    unfolding g1 returned_cell_def using c(1) by simp
  have rc2: "returned_cell (getCell 0 ?s2 0 0) = Some c2"
    unfolding g2 returned_cell_def using c(2) by simp
  show ?thesis unfolding rc1 rc2 using r1 r2 c(3,4,5) by simp
qed

section \<open>Index calls keep the index invariant\<close>


lemma untrack_ok:
  assumes "sound s" and "index_ok s" and en: "entityObjs s e = Some en" "currentCell en = Some old"
    and "Cell_removeEntity s old e = Some s1" and "set_currentCell s1 e None = Some s2"
  shows "sound s2" and "index_ok s2" and "positioned s2 e"
    and "\<And>e'. e' \<noteq> e \<Longrightarrow> positioned s e' \<Longrightarrow> positioned s2 e'"
    and "entityObjs s2 = (entityObjs s)(e \<mapsto> en\<lparr>currentCell := None\<rparr>)"
    and "\<And>a c. cellObjs s a = Some c \<Longrightarrow>
           \<exists>c'. cellObjs s2 a = Some c' \<and> cell_x c' = cell_x c \<and> cell_y c' = cell_y c"
    and "cellSize s2 = cellSize s"
proof -
  from assms(5) obtain c where c: "cellObjs s old = Some c"
    by (auto simp: Cell_removeEntity_def split: option.splits)
  from assms c have s2: "s2 = s\<lparr>cellObjs := (cellObjs s)(old \<mapsto> c\<lparr>entities := entities c - {e}\<rparr>),
                                entityObjs := (entityObjs s)(e \<mapsto> en\<lparr>currentCell := None\<rparr>)\<rparr>"
    by (auto simp: Cell_removeEntity_def set_currentCell_def)
  from Cell_removeEntity_sound[OF assms(1,5)] set_currentCell_sound[OF _ assms(6)]
  show "sound s2" by simp
  show "index_ok s2"
    using assms(2) c en unfolding index_ok_def s2
    by (auto split: if_splits) (metis option.distinct(1) option.inject)+
  show "positioned s2 e" unfolding positioned_def s2 by simp
  show "positioned s2 e'" if "e' \<noteq> e" "positioned s e'" for e'
    using that c unfolding positioned_def s2 by (auto split: if_splits)
  show "entityObjs s2 = (entityObjs s)(e \<mapsto> en\<lparr>currentCell := None\<rparr>)" by (simp add: s2)
  show "\<exists>c'. cellObjs s2 a = Some c' \<and> cell_x c' = cell_x c \<and> cell_y c' = cell_y c"
    if "cellObjs s a = Some c" for a c
    using that \<open>cellObjs s old = Some _\<close> unfolding s2 by (auto split: if_splits)
  show "cellSize s2 = cellSize s" by (simp add: s2)
qed

lemma Grid_removeEntity_tracked:
  assumes "tracked_ok s" and "Grid_removeEntity s e = Some s'"
  shows "tracked_ok s'"
proof -
  from assms(2) obtain en where en: "entityObjs s e = Some en"
    by (cases "entityObjs s e") (simp_all add: Grid_removeEntity_def)
  show ?thesis
  proof (cases "currentCell en")
    case None
    with assms en show ?thesis by (simp add: Grid_removeEntity_def)
  next
    case (Some old)
    with assms(2) en obtain s1 where
      r: "Cell_removeEntity s old e = Some s1" and cu: "set_currentCell s1 e None = Some s'"
      by (auto simp: Grid_removeEntity_def split: option.splits)
    from assms(1) have a: "sound s" "index_ok s" "\<forall>e. positioned s e" by (simp_all add: tracked_ok_def)
    note u = untrack_ok[OF a(1,2) en Some r cu]
    have "positioned s' e'" for e' using u(3) u(4)[of e'] a(3) by (cases "e' = e") auto
    with u(1,2) show ?thesis by (simp add: tracked_ok_def)
  qed
qed













section \<open>A constructor call that spawns a tree\<close>

lemma spawnLoop_quiet:
  assumes "quiet s" and "\<forall>t\<in>set l. snd t \<le> 3/10"
  shows "\<exists>k. spawnLoop gc this l n s = Some (s\<lparr>randomCount := randomCount s + k\<rparr>)"
  using assms
proof (induction l arbitrary: s)
  case Nil
  have "s = s\<lparr>randomCount := randomCount s + 0\<rparr>" by simp
  then show ?case by (metis spawnLoop.simps(1))
next
  case (Cons t l)
  show ?case
  proof (cases "n \<ge> 2")
    case True
    have "s = s\<lparr>randomCount := randomCount s + 0\<rparr>" by simp
    moreover from True have "spawnLoop gc this (t # l) n s = Some s" by simp
    ultimately show ?thesis by metis
  next
    case False
    let ?s1 = "s\<lparr>randomCount := Suc (randomCount s)\<rparr>"
    have "snd t \<le> 3/10" using Cons.prems(2) by simp
    moreover have "3/10 \<le> random s (randomCount s)" using Cons.prems(1) by (simp add: quiet_def)
    ultimately have "\<not> random s (randomCount s) < snd t * 1" by linarith
    with False have e: "spawnLoop gc this (t # l) n s = spawnLoop gc this l n ?s1"
      by (simp add: Math_random_def)
    have "quiet ?s1" using Cons.prems(1) by (simp add: quiet_def)
    from Cons.IH[OF this] Cons.prems(2) obtain k where
      "spawnLoop gc this l n ?s1 = Some (?s1\<lparr>randomCount := randomCount ?s1 + k\<rparr>)" by auto
    with e have "spawnLoop gc this (t # l) n s = Some (s\<lparr>randomCount := randomCount s + Suc k\<rparr>)"
      by simp
    then show ?thesis by blast
  qed
qed

lemma noiseAt_origin [simp]: "noiseAt sd 0 0 = 1/2"
  using noiseAt_lattice[of sd 0 0] by simp

lemma cellAt_origin_terrain:
  "height (cellAt cs 1 1 1 0 0) = 1/2" "soilFertility (cellAt cs 1 1 1 0 0) = 1/2"
  "temperature (cellAt cs 1 1 1 0 0) = 1/2" "water (cellAt cs 1 1 1 0 0) = False"
  "worldX (cellAt cs 1 1 1 0 0) = 0" "worldY (cellAt cs 1 1 1 0 0) = 0"
  "cell_size (cellAt cs 1 1 1 0 0) = cs"
  by (simp_all add: cellAt_def Cell_fields_def)

text \<open>The candidates of a cell whose three scalars are one half, highest chance first.\<close>

lemma treeChances_at_half:
  "collectTreeChances (1/2) (1/2) (1/2) Tree_types = ([(''oak'', 4/45), (''palm'', 1/90)], [])"
  "sortTreeChances [(''oak'', 4/45), (''palm'', 1/90)] = [(''oak'', 4/45), (''palm'', 1/90)]"
  by (simp_all add: Tree_types_def calculateTreeSpawnChance_def get_property_def treePreferences_def
      calculatePropertyFitness_def Let_def sortTreeChances_def)

lemma floor_25_50: "\<lfloor>(25::real) / 50\<rfloor> = 0"
  by (simp add: floor_eq_iff)

lemma spawning_grid_sound: "sound spawning_grid"
  unfolding spawning_grid_def by (rule Grid_new_sound) simp

lemma sound_same_store:
  assumes "sound s" and "cells s' = cells s" and "cellObjs s' = cellObjs s"
    and "nextCell s' = nextCell s" and "entityObjs s' = entityObjs s"
    and "nextEntity s' = nextEntity s" and "soilNoiseGenerator s' = soilNoiseGenerator s"
    and "heightNoiseGenerator s' = heightNoiseGenerator s"
    and "temperatureNoiseGenerator s' = temperatureNoiseGenerator s" and "config s' = config s"
  shows "sound s'"
  using assms unfolding sound_def map_ok_def alloc_ok_def terrain_ok_def config_def by simp

text \<open>
  \<open>getCell(0, 0)\<close> on the new Grid of the spawning program. The constructor of the cell
  (object 0) rolls 0.05 against the oak chance 4/45 and creates a tree at (25, 25); the
  tree's constructor calls \<open>addEntity\<close>, whose \<open>getCell(0, 0)\<close> finds no cell stored yet,
  constructs a second cell for the same coordinates (object 1), stores it, and the tree
  becomes its member. Back in the first \<open>getCell\<close>, object 0 is stored under the key over
  object 1.
\<close>

lemma spawning_grid_getCell:
  "\<exists>s'. getCell 2 spawning_grid 0 0 = Some (0, s') \<and>
      cells s' = [getCellKey 0 0 \<mapsto> 0] \<and>
      cellObjs s' = [0 \<mapsto> cellAt 50 1 1 1 0 0, 1 \<mapsto> (cellAt 50 1 1 1 0 0)\<lparr>entities := {0}\<rparr>] \<and>
      entityObjs s' = [0 \<mapsto> \<lparr>position = (25, 25), currentCell = Some 1\<rparr>] \<and>
      cellSize s' = 50 \<and> sound s'"
proof -
  let ?s = spawning_grid
  let ?rnd = "\<lambda>i::nat. if i = 0 then 1/20 else (1/2::real)"
  have s0: "cellSize ?s = 50" "freq_soilFertility ?s = 1" "freq_height ?s = 1"
    "freq_temperature ?s = 1" "cells ?s = Map.empty" "cellObjs ?s = Map.empty" "nextCell ?s = 0"
    "entityObjs ?s = Map.empty" "nextEntity ?s = 0" "random ?s = ?rnd" "randomCount ?s = 0"
    "console ?s = []"
    by (simp_all add: spawning_grid_def Grid_new_def)
  obtain soil g1 where n1: "noise (soilNoiseGenerator ?s)
      (real_of_int 0 * freq_soilFertility ?s) (real_of_int 0 * freq_soilFertility ?s) = (soil, g1)"
    by (cases "noise (soilNoiseGenerator ?s)
      (real_of_int 0 * freq_soilFertility ?s) (real_of_int 0 * freq_soilFertility ?s)")
  obtain h g2 where n2: "noise (heightNoiseGenerator ?s)
      (real_of_int 0 * freq_height ?s) (real_of_int 0 * freq_height ?s) = (h, g2)"
    by (cases "noise (heightNoiseGenerator ?s)
      (real_of_int 0 * freq_height ?s) (real_of_int 0 * freq_height ?s)")
  obtain temp g3 where n3: "noise (temperatureNoiseGenerator ?s)
      (real_of_int 0 * freq_temperature ?s) (real_of_int 0 * freq_temperature ?s) = (temp, g3)"
    by (cases "noise (temperatureNoiseGenerator ?s)
      (real_of_int 0 * freq_temperature ?s) (real_of_int 0 * freq_temperature ?s)")
  let ?c0 = "cellAt 50 1 1 1 0 0"
  define s1 where "s1 = ?s\<lparr>soilNoiseGenerator := g1, heightNoiseGenerator := g2,
                temperatureNoiseGenerator := g3,
                cellObjs := (cellObjs ?s)(nextCell ?s \<mapsto> Cell_fields 0 0 (cellSize ?s) soil h temp),
                nextCell := Suc (nextCell ?s)\<rparr>"
  note al = alloc_cell_ok[OF spawning_grid_sound n1 n2 n3 s1_def]
  have c0: "Cell_fields 0 0 50 soil h temp = ?c0" using al(3) by (simp add: s0)
  from al(1) have snd1: "sound s1" by (simp add: step_ok_def)
  have f1: "cellSize s1 = 50" "freq_soilFertility s1 = 1" "freq_height s1 = 1"
    "freq_temperature s1 = 1" "cells s1 = Map.empty" "cellObjs s1 = [0 \<mapsto> ?c0]" "nextCell s1 = 1"
    "entityObjs s1 = Map.empty" "nextEntity s1 = 0" "random s1 = ?rnd" "randomCount s1 = 0"
    "console s1 = []"
    by (simp_all add: s1_def s0 c0)
  \<comment> \<open>the state in which the tree's constructor calls \<open>addEntity\<close>\<close>
  define s5 where "s5 = s1\<lparr>console := [],
      entityObjs := [0 \<mapsto> \<lparr>position = (25, 25), currentCell = None\<rparr>], nextEntity := Suc 0,
      randomCount := Suc (Suc (Suc (Suc 0)))\<rparr>"
  have snd5: "sound s5"
  proof -
    have "sound (s1\<lparr>console := [], randomCount := Suc (Suc (Suc 0))\<rparr>)" using snd1 by simp
    from alloc_entity_ok(1)[OF this refl, of "(25, 25)"]
    have "sound (s1\<lparr>console := [], randomCount := Suc (Suc (Suc 0)),
             entityObjs := [0 \<mapsto> \<lparr>position = (25, 25), currentCell = None\<rparr>], nextEntity := 1\<rparr>)"
      by (simp add: step_ok_def f1)
    then show ?thesis by (rule sound_same_store) (simp_all add: s5_def config_def)
  qed
  have q5: "quiet s5" by (simp add: quiet_def s5_def f1)
  have en5: "entityObjs s5 0 = Some \<lparr>position = (25, 25), currentCell = None\<rparr>" by (simp add: s5_def)
  have none5: "cells s5 (getCellKey
      \<lfloor>fst (position \<lparr>position = (25::real, 25::real), currentCell = None\<rparr>) / cellSize s5\<rfloor>
      \<lfloor>snd (position \<lparr>position = (25::real, 25::real), currentCell = None\<rparr>) / cellSize s5\<rfloor>) = None"
    by (simp add: s5_def f1)
  from Grid_addEntity_quiet[OF snd5 q5 en5 none5, of 0] obtain s8 where
    add: "Grid_addEntity (Suc 0) s5 0 = Some s8" and
    f8: "cells s8 = [getCellKey 0 0 \<mapsto> 1]"
        "cellObjs s8 = [0 \<mapsto> ?c0, 1 \<mapsto> ?c0\<lparr>entities := {0}\<rparr>]"
        "entityObjs s8 = [0 \<mapsto> \<lparr>position = (25, 25), currentCell = Some 1\<rparr>]"
        "config s8 = config s5" "sound s8" "quiet s8"
    by (auto simp: s5_def f1 floor_25_50)
  have tree: "Game_createTree_with (getCell 1) (s1\<lparr>console := [], randomCount := Suc (Suc (Suc 0))\<rparr>) 25 25 ''oak''
                = Some (0, s8)"
    using add
    by (simp add: Game_createTree_with_def Entity_new_with_def Let_def Math_random_def f1 s5_def
        Grid_addEntity_def)
  from spawnLoop_quiet[OF f8(6), of "[(''palm'', 1/90)]" "getCell 1" 0 "Suc 0"] obtain k where
    rest: "spawnLoop (getCell 1) 0 [(''palm'', 1/90)] (Suc 0) s8 =
             Some (s8\<lparr>randomCount := randomCount s8 + k\<rparr>)" by auto
  let ?s9 = "s8\<lparr>randomCount := randomCount s8 + k\<rparr>"
  have "spawnLoop (getCell 1) 0 [(''oak'', 4/45), (''palm'', 1/90)] 0 (s1\<lparr>console := []\<rparr>) =
          (case Game_createTree_with (getCell 1) (s1\<lparr>console := [], randomCount := Suc (Suc (Suc 0))\<rparr>)
                  25 25 ''oak'' of
             None \<Rightarrow> None
           | Some (tree, s4) \<Rightarrow> spawnLoop (getCell 1) 0 [(''palm'', 1/90)] (Suc 0) s4)"
    apply (subst spawnLoop.simps(2))
    apply (simp add: Math_random_def f1 cellAt_origin_terrain Let_def del: spawnLoop.simps One_nat_def)
    done
  with tree rest
  have loop: "spawnLoop (getCell 1) 0 [(''oak'', 4/45), (''palm'', 1/90)] 0 (s1\<lparr>console := []\<rparr>) = Some ?s9"
    by (simp del: spawnLoop.simps One_nat_def)
  have spawn: "spawnTreesHere_with (getCell 1) s1 0 = Some ?s9"
    using loop
    by (simp add: spawnTreesHere_with_def f1 cellAt_origin_terrain treeChances_at_half)
  have new: "Cell_new_with (getCell 1) ?s 0 0 = Some (0, ?s9)"
    using n1 n2 n3 spawn by (simp add: Cell_new_with_def Let_def s1_def s0)
  let ?s' = "?s9\<lparr>cells := (cells ?s9)(getCellKey 0 0 \<mapsto> 0)\<rparr>"
  have run: "getCell 2 ?s 0 0 = Some (0, ?s')"
    using new by (simp add: numeral_2_eq_2 s0)
  from getCell_sound[OF spawning_grid_sound run] have "sound ?s'" by simp
  moreover from f8(4) have "cellSize ?s' = 50" by (simp add: config_def s5_def f1)
  ultimately show ?thesis using run f8 by (intro exI[of _ ?s']) simp
qed

section \<open>Queries leave the Grid alone\<close>

lemma getNeighborsInRadius_total:
  assumes "cellObjs s this = Some c"
  shows "\<exists>ns s'. getNeighborsInRadius s this r = Some (ns, s')"
  using assms by (auto simp: getNeighborsInRadius_def Let_def split: option.splits)

lemma getNeighborsInRadius_shape:
  assumes "getNeighborsInRadius s this r = Some (ns, s')"
  shows "\<exists>c m. cellObjs s this = Some c \<and>
           s' = s\<lparr>cellObjs := (cellObjs s)(this \<mapsto> c\<lparr>neighborsInRadius := Some m\<rparr>)\<rparr>"
  using assms
  by (auto simp: getNeighborsInRadius_def Let_def split: option.splits)

lemma getNeighborsInRadius_frame:
  assumes "getNeighborsInRadius s this r = Some (ns, s')"
  shows "cells s' = cells s \<and> dom (cellObjs s') = dom (cellObjs s) \<and>
         (\<forall>a. a \<noteq> this \<longrightarrow> cellObjs s' a = cellObjs s a) \<and>
         entityObjs s' = entityObjs s"
proof -
  from getNeighborsInRadius_shape[OF assms] obtain c m where
    c: "cellObjs s this = Some c" and
    s': "s' = s\<lparr>cellObjs := (cellObjs s)(this \<mapsto> c\<lparr>neighborsInRadius := Some m\<rparr>)\<rparr>"
    by blast
  from c have "insert this (dom (cellObjs s)) = dom (cellObjs s)" by auto
  then show ?thesis by (simp add: s')
qed

text \<open>
  C8. \<open>getEntitiesInRadius\<close> and \<open>getEntitiesInArea\<close> return the state they were called
  in. \<open>getNeighborsInRadius\<close> on a cell object returns, and changes nothing but the
  \<open>neighborsInRadius\<close> field of that object: the Grid's map and the set of cell objects
  are the same before and after.
\<close>

theorem queries_create_no_cell:
  "snd (getEntitiesInRadius s cx cy r) = s \<and>
   snd (getEntitiesInArea s x y w h) = s \<and>
   (cellObjs s this = Some c \<longrightarrow>
      (\<exists>ns s'. getNeighborsInRadius s this radius = Some (ns, s'))) \<and>
   (getNeighborsInRadius s this radius = Some (ns, s') \<longrightarrow>
      cells s' = cells s \<and> dom (cellObjs s') = dom (cellObjs s) \<and>
      (\<forall>a. a \<noteq> this \<longrightarrow> cellObjs s' a = cellObjs s a))"
  using getNeighborsInRadius_total[of s this c radius] getNeighborsInRadius_frame[of s this radius ns s']
  by (simp add: getEntitiesInRadius_def getEntitiesInArea_def Let_def)

lemma sqrt_25: "sqrt (25::real) = 5"
  by (rule real_sqrt_unique) simp_all

text \<open>The state of the other program after \<open>addEntity\<close> at (3, 4) has a consistent index.\<close>

lemma other_grid_add_consistent:
  "api_run 1 other_grid [IndexCall (AddEntity 0 3 4)] \<noteq> None \<and>
   index_consistent (the (api_run 1 other_grid [IndexCall (AddEntity 0 3 4)])) \<and>
   cellSize (the (api_run 1 other_grid [IndexCall (AddEntity 0 3 4)])) = 50 \<and>
   entityObjs (the (api_run 1 other_grid [IndexCall (AddEntity 0 3 4)])) 0 =
     Some \<lparr>position = (3, 4), currentCell = Some 0\<rparr> \<and>
   cellObjs (the (api_run 1 other_grid [IndexCall (AddEntity 0 3 4)])) 0 =
     Some ((cellAt 50 1 1 1 0 0)\<lparr>entities := {0}\<rparr>)"
proof -
  from other_grid_add obtain s' where
    run: "api_run 1 other_grid [IndexCall (AddEntity 0 3 4)] = Some s'" and
    f: "cells s' = [getCellKey 0 0 \<mapsto> 0]"
       "cellObjs s' = [0 \<mapsto> (cellAt 50 1 1 1 0 0)\<lparr>entities := {0}\<rparr>]"
       "entityObjs s' = [0 \<mapsto> \<lparr>position = (3, 4), currentCell = Some 0\<rparr>]"
       "cellSize s' = 50"
    by blast
  have "index_consistent s'"
    unfolding index_consistent_def
    by (auto simp: f worldToCell_def floor_3_50 floor_4_50 split: if_splits)
  with run f show ?thesis by simp
qed

text \<open>The entity at (3, 4) is at distance exactly 5 from the origin: in the result for
  radius 5, not in the result for radius 4.9.\<close>

theorem getEntitiesInRadius_exact_witness:
  "0 \<in> fst (getEntitiesInRadius (the (api_run 1 other_grid [IndexCall (AddEntity 0 3 4)])) 0 0 5) \<and>
   0 \<notin> fst (getEntitiesInRadius (the (api_run 1 other_grid [IndexCall (AddEntity 0 3 4)])) 0 0 (49/10))"
proof -
  let ?s = "the (api_run 1 other_grid [IndexCall (AddEntity 0 3 4)])"
  let ?en = "\<lparr>position = (3::real, 4::real), currentCell = Some (0::nat)\<rparr>"
  from other_grid_add_consistent have c: "index_consistent ?s" and cs: "0 < cellSize ?s"
    and en: "entityObjs ?s 0 = Some ?en" by simp_all
  have cur: "currentCell ?en \<noteq> None" by simp
  have d: "sqrt ((fst (position ?en) - 0) * (fst (position ?en) - 0) +
                 (snd (position ?en) - 0) * (snd (position ?en) - 0)) = 5"
    by (simp add: sqrt_25)
  have r5: "(0::real) \<le> 5" and r49: "(0::real) \<le> 49/10" by simp_all
  from getEntitiesInRadius_exact[OF r5 cs c en cur, of 0 0] d
  have "0 \<in> fst (getEntitiesInRadius ?s 0 0 5)" by simp
  moreover from getEntitiesInRadius_exact[OF r49 cs c en cur, of 0 0] d
  have "0 \<notin> fst (getEntitiesInRadius ?s 0 0 (49/10))" by simp
  ultimately show ?thesis by simp
qed

theorem queries_create_no_cell_witness:
  "getNeighborsInRadius (the (api_run 1 other_grid [IndexCall (AddEntity 0 3 4)])) 0 1 \<noteq> None \<and>
   cells (snd (the (getNeighborsInRadius
            (the (api_run 1 other_grid [IndexCall (AddEntity 0 3 4)])) 0 1))) =
     cells (the (api_run 1 other_grid [IndexCall (AddEntity 0 3 4)])) \<and>
   dom (cellObjs (snd (the (getNeighborsInRadius
            (the (api_run 1 other_grid [IndexCall (AddEntity 0 3 4)])) 0 1)))) =
     dom (cellObjs (the (api_run 1 other_grid [IndexCall (AddEntity 0 3 4)]))) \<and>
   snd (getEntitiesInRadius (the (api_run 1 other_grid [IndexCall (AddEntity 0 3 4)])) 0 0 5) =
     the (api_run 1 other_grid [IndexCall (AddEntity 0 3 4)])"
proof -
  let ?s = "the (api_run 1 other_grid [IndexCall (AddEntity 0 3 4)])"
  let ?c = "(cellAt 50 1 1 1 0 0)\<lparr>entities := {0}\<rparr>"
  from other_grid_add_consistent have c: "cellObjs ?s 0 = Some ?c" by simp
  note q = queries_create_no_cell[of ?s 0 0 5 0 0 0 0 0 ?c 1]
  from q c obtain ns s' where r: "getNeighborsInRadius ?s 0 1 = Some (ns, s')" by blast
  from queries_create_no_cell[of ?s 0 0 5 0 0 0 0 0 ?c 1 ns s'] r
  show ?thesis by simp
qed

section \<open>The neighbour cache\<close>

lemma in_concat_map: "a \<in> set (concat (map f xs)) \<longleftrightarrow> (\<exists>x\<in>set xs. a \<in> set (f x))"
  by auto

lemma set_ringNeighbors: "set (ringNeighbors s c radius) = neighbors_present s c radius"
proof -
  have "a \<in> set (ringNeighbors s c radius) \<longleftrightarrow> a \<in> neighbors_present s c radius" for a
  proof -
    have inner: "a \<in> set (if dx = 0 \<and> dy = 0 then []
             else (case cells s (getCellKey (cell_x c + dx) (cell_y c + dy)) of
                     None \<Rightarrow> [] | Some neighbor \<Rightarrow> [neighbor])) \<longleftrightarrow>
           \<not> (dx = 0 \<and> dy = 0) \<and> cells s (getCellKey (cell_x c + dx) (cell_y c + dy)) = Some a"
      for dx dy :: int
      by (auto split: option.splits)
    have "a \<in> set (ringNeighbors s c radius) \<longleftrightarrow>
            (\<exists>dx\<in>set [- radius..radius]. \<exists>dy\<in>set [- radius..radius]. \<not> (dx = 0 \<and> dy = 0) \<and>
               cells s (getCellKey (cell_x c + dx) (cell_y c + dy)) = Some a)"
      unfolding ringNeighbors_def by (simp only: in_concat_map inner)
    also have "\<dots> \<longleftrightarrow> (\<exists>dx dy. \<bar>dx\<bar> \<le> radius \<and> \<bar>dy\<bar> \<le> radius \<and> \<not> (dx = 0 \<and> dy = 0) \<and>
               cells s (getCellKey (cell_x c + dx) (cell_y c + dy)) = Some a)"
    proof -
      have r: "(- radius \<le> d \<and> d \<le> radius) = (\<bar>d\<bar> \<le> radius)" for d :: int by auto
      show ?thesis unfolding Bex_def set_upto atLeastAtMost_iff r by blast
    qed
    finally show ?thesis by (simp add: neighbors_present_def)
  qed
  then show ?thesis by blast
qed

text \<open>
  C6, as the code caches. A call on a cell with no list cached for the radius returns the
  ring enumeration of the map as it is at that call (exactly the neighbours present) and
  caches it. A call on a cell with a list cached for the radius returns the cached list,
  whatever the map holds by then, and leaves the cached list in place.
\<close>

theorem getNeighborsInRadius_cached:
  assumes "cellObjs s this = Some c"
  shows "(cachedNeighbors c radius = None \<longrightarrow>
           (\<exists>s' c'. getNeighborsInRadius s this radius = Some (ringNeighbors s c radius, s') \<and>
              set (ringNeighbors s c radius) = neighbors_present s c radius \<and>
              cellObjs s' this = Some c' \<and>
              cachedNeighbors c' radius = Some (ringNeighbors s c radius))) \<and>
         (cachedNeighbors c radius = Some ns \<longrightarrow>
           (\<exists>s' c'. getNeighborsInRadius s this radius = Some (ns, s') \<and>
              cellObjs s' this = Some c' \<and> cachedNeighbors c' radius = Some ns))"
  using assms
  by (auto simp: getNeighborsInRadius_def cachedNeighbors_def Let_def set_ringNeighbors
      split: option.splits)


lemma neighborsInRadius_cellAt [simp]: "neighborsInRadius (cellAt cs fs fh ft x y) = None"
  by (simp add: cellAt_def Cell_fields_def)

text \<open>
  A program on a new Grid with no random number below 0.3: it makes the cell (0, 0), asks
  that cell for its neighbours within a radius, and then makes the cell (1, 0). The list
  cached on the cell (0, 0) is the empty list of the first call.
\<close>

lemma stale_neighbors_run:
  assumes snd: "sound s" and q: "quiet s" and e: "cells s = Map.empty" and n: "nextCell s = 0"
  shows "\<exists>s3. api_run (Suc d) s [GetCell 0 0, GetNeighborsInRadius 0 r, GetCell 1 0] = Some s3 \<and>
           cells s3 = [getCellKey 0 0 \<mapsto> 0, getCellKey 1 0 \<mapsto> 1] \<and>
           cellObjs s3 =
             [0 \<mapsto> (cellAt (cellSize s) (freq_soilFertility s) (freq_height s) (freq_temperature s) 0 0)
                     \<lparr>neighborsInRadius := Some [r \<mapsto> []]\<rparr>,
              1 \<mapsto> cellAt (cellSize s) (freq_soilFertility s) (freq_height s) (freq_temperature s) 1 0] \<and>
           sound s3 \<and> config s3 = config s"
proof -
  let ?c0 = "cellAt (cellSize s) (freq_soilFertility s) (freq_height s) (freq_temperature s) 0 0"
  let ?c1 = "cellAt (cellSize s) (freq_soilFertility s) (freq_height s) (freq_temperature s) 1 0"
  from snd n have objs: "cellObjs s = Map.empty"
    by (auto simp: sound_def alloc_ok_def fun_eq_iff)
  from e have none0: "cells s (getCellKey 0 0) = None" by simp
  from getCell_new_quiet[OF snd none0 q, of d] n objs e obtain s1 where
    g1: "getCell (Suc d) s 0 0 = Some (0, s1)" and c1: "cells s1 = [getCellKey 0 0 \<mapsto> 0]" and
    o1: "cellObjs s1 = [0 \<mapsto> ?c0]" and n1: "nextCell s1 = Suc 0" and cf1: "config s1 = config s" and
    s1: "sound s1" and q1: "quiet s1"
    by auto
  have "neighbors_present s1 ?c0 r = {}"
    by (auto simp: neighbors_present_def c1)
  then have ring: "ringNeighbors s1 ?c0 r = []"
    using set_ringNeighbors[of s1 ?c0 r] by simp
  define s2 where "s2 = s1\<lparr>cellObjs := [0 \<mapsto> ?c0\<lparr>neighborsInRadius := Some [r \<mapsto> []]\<rparr>]\<rparr>"
  have g2: "getNeighborsInRadius s1 0 r = Some ([], s2)"
    by (simp add: getNeighborsInRadius_def o1 ring s2_def)
  from getNeighborsInRadius_sound[OF s1 g2] have snd2: "sound s2" and cf2: "config s2 = config s1"
    by simp_all
  from q1 have q2: "quiet s2" by (simp add: quiet_def s2_def)
  have none1: "cells s2 (getCellKey 1 0) = None" by (simp add: s2_def c1)
  have cfg: "cellSize s2 = cellSize s" "freq_soilFertility s2 = freq_soilFertility s"
    "freq_height s2 = freq_height s" "freq_temperature s2 = freq_temperature s"
    using cf1 cf2 by (simp_all add: config_def)
  from getCell_new_quiet[OF snd2 none1 q2, of d] obtain s3 where
    g3: "getCell (Suc d) s2 1 0 = Some (nextCell s2, s3)" and
    c3: "cells s3 = (cells s2)(getCellKey 1 0 \<mapsto> nextCell s2)" and
    o3: "cellObjs s3 = (cellObjs s2)(nextCell s2 \<mapsto> ?c1)" and
    s3: "sound s3" and cf3: "config s3 = config s2"
    unfolding cfg by blast
  have n2: "nextCell s2 = Suc 0" by (simp add: s2_def n1)
  have "api_run (Suc d) s [GetCell 0 0, GetNeighborsInRadius 0 r, GetCell 1 0] = Some s3"
    by (simp add: g1 g2 g3 del: getCell.simps)
  moreover have "cells s3 = [getCellKey 0 0 \<mapsto> 0, getCellKey 1 0 \<mapsto> 1]"
    by (simp add: c3 n2) (simp add: s2_def c1)
  moreover have "cellObjs s3 = [0 \<mapsto> ?c0\<lparr>neighborsInRadius := Some [r \<mapsto> []]\<rparr>, 1 \<mapsto> ?c1]"
    by (simp add: o3 n2) (simp add: s2_def)
  ultimately show ?thesis using s3 cf3 cf2 cf1 by simp
qed

text \<open>
  C6 fails on that program with radius 1: the cell (1, 0) is in the Grid's map and at
  Chebyshev distance 1 of the cell (0, 0), and the call on the cell (0, 0) returns the
  empty list.
\<close>

theorem stale_neighbors_counterexample:
  "api_run 1 example_grid [GetCell 0 0, GetNeighborsInRadius 0 1, GetCell 1 0] \<noteq> None \<and>
   map_option fst (getNeighborsInRadius
      (the (api_run 1 example_grid [GetCell 0 0, GetNeighborsInRadius 0 1, GetCell 1 0])) 0 1) = Some [] \<and>
   1 \<in> neighbors_present
      (the (api_run 1 example_grid [GetCell 0 0, GetNeighborsInRadius 0 1, GetCell 1 0]))
      (the (cellObjs (the (api_run 1 example_grid
          [GetCell 0 0, GetNeighborsInRadius 0 1, GetCell 1 0])) 0)) 1"
proof -
  have q: "quiet example_grid" by (simp add: quiet_def example_grid_def Grid_new_def)
  have e: "cells example_grid = Map.empty" "nextCell example_grid = 0"
    by (simp_all add: example_grid_def Grid_new_def)
  from stale_neighbors_run[OF example_grid_sound q e, of 0 1] obtain s3 where
    r: "api_run (Suc 0) example_grid [GetCell 0 0, GetNeighborsInRadius 0 1, GetCell 1 0] = Some s3" and
    c: "cells s3 = [getCellKey 0 0 \<mapsto> 0, getCellKey 1 0 \<mapsto> 1]" and
    o: "cellObjs s3 0 = Some ((cellAt (cellSize example_grid) (freq_soilFertility example_grid)
          (freq_height example_grid) (freq_temperature example_grid) 0 0)
            \<lparr>neighborsInRadius := Some [1 \<mapsto> []]\<rparr>)"
    by auto
  have "1 \<in> neighbors_present s3 (the (cellObjs s3 0)) 1"
    unfolding neighbors_present_def o
    by (simp add: c) (intro exI[of _ 1] exI[of _ 0], simp)
  moreover have "map_option fst (getNeighborsInRadius s3 0 1) = Some []"
    by (simp add: getNeighborsInRadius_def o)
  ultimately show ?thesis using r by simp
qed

text \<open>A cell with no cached list and a cell with one, in the state after that program.\<close>

theorem getNeighborsInRadius_cached_witness:
  "cachedNeighbors (cellAt 50 1 1 1 1 0) 1 = None \<and>
   cachedNeighbors ((cellAt 50 1 1 1 0 0)\<lparr>neighborsInRadius := Some [1 \<mapsto> []]\<rparr>) 1 = Some [] \<and>
   map_option fst (getNeighborsInRadius
      (the (api_run 1 example_grid [GetCell 0 0, GetNeighborsInRadius 0 1, GetCell 1 0])) 1 1) = Some [0] \<and>
   map_option fst (getNeighborsInRadius
      (the (api_run 1 example_grid [GetCell 0 0, GetNeighborsInRadius 0 1, GetCell 1 0])) 0 1) = Some []"
proof -
  let ?c0 = "(cellAt 50 1 1 1 0 0)\<lparr>neighborsInRadius := Some [1 \<mapsto> []]\<rparr>"
  let ?c1 = "cellAt 50 1 1 1 1 0"
  have q: "quiet example_grid" by (simp add: quiet_def example_grid_def Grid_new_def)
  have e: "cells example_grid = Map.empty" "nextCell example_grid = 0"
    by (simp_all add: example_grid_def Grid_new_def)
  have cfg: "cellSize example_grid = 50" "freq_soilFertility example_grid = 1"
    "freq_height example_grid = 1" "freq_temperature example_grid = 1"
    by (simp_all add: example_grid_def Grid_new_def)
  from stale_neighbors_run[OF example_grid_sound q e, of 0 1] obtain S where
    r: "api_run (Suc 0) example_grid [GetCell 0 0, GetNeighborsInRadius 0 1, GetCell 1 0] = Some S" and
    c: "cells S = [getCellKey 0 0 \<mapsto> 0, getCellKey 1 0 \<mapsto> 1]" and
    o0: "cellObjs S 0 = Some ?c0" and o1: "cellObjs S 1 = Some ?c1"
    unfolding cfg by auto
  have k0: "cachedNeighbors ?c0 1 = Some []" and k1: "cachedNeighbors ?c1 1 = None"
    by (simp_all add: cachedNeighbors_def)
  from getNeighborsInRadius_cached[OF o1, of 1 "[]"] k1
  have "map_option fst (getNeighborsInRadius S 1 1) = Some (ringNeighbors S ?c1 1)"
    by auto
  moreover have u: "[- 1..1] = [- 1, 0, 1::int]" by (simp add: upto_rec1)
  have "ringNeighbors S ?c1 1 = [0]"
    by (simp add: ringNeighbors_def c u)
  moreover from getNeighborsInRadius_cached[OF o0, of 1 "[]"] k0
  have "map_option fst (getNeighborsInRadius S 0 1) = Some []" by auto
  ultimately show ?thesis using k0 k1 r by simp
qed

section \<open>Clearing the Grid\<close>

text \<open>
  \<open>Grid.clear\<close> empties the set of every cell object the map holds, leaves every other
  cell object and every entity object as it is, and resets the map.
\<close>

lemma Grid_clear_effect:
  "cells (Grid_clear s) = Map.empty"
  "entityObjs (Grid_clear s) = entityObjs s"
  "a \<in> ran (cells s) \<Longrightarrow> members (Grid_clear s) a = {}"
  "a \<notin> ran (cells s) \<Longrightarrow> cellObjs (Grid_clear s) a = cellObjs s a"
  by (auto simp: Grid_clear_def members_def Cell_clear_def split: option.splits)

text \<open>
  An entity whose current cell is a cell object of the map keeps its reference: after
  \<open>clear\<close> the object is still there, the map no longer holds it, and its set no longer
  contains the entity.
\<close>

lemma Grid_clear_tracked_in_map:
  assumes "entityObjs s e = Some en" and "currentCell en = Some a" and "a \<in> ran (cells s)"
    and "cellObjs s a = Some c"
  shows "entityObjs (Grid_clear s) e = Some en \<and> a \<notin> ran (cells (Grid_clear s)) \<and>
         cellObjs (Grid_clear s) a = Some (c\<lparr>entities := {}\<rparr>) \<and> e \<notin> members (Grid_clear s) a"
  using assms by (simp add: Grid_clear_def members_def Cell_clear_def)

text \<open>
  C10 on the spawning program. \<open>getCell(0, 0)\<close> makes the cell object 0, whose constructor
  creates the tree 0; the tree is tracked by the cell object 1, which the map does not
  hold. After \<open>clear\<close> the map is empty, the tree still has the cell object 1 as its
  current cell, and the set of that object still contains the tree.
\<close>

theorem Grid_clear_keeps_orphan_member:
  "api_run 2 spawning_grid [GetCell 0 0, Clear] \<noteq> None \<and>
   cells (the (api_run 2 spawning_grid [GetCell 0 0, Clear])) = Map.empty \<and>
   map_option currentCell (entityObjs (the (api_run 2 spawning_grid [GetCell 0 0, Clear])) 0) =
     Some (Some 1) \<and>
   0 \<in> members (the (api_run 2 spawning_grid [GetCell 0 0, Clear])) 1"
proof -
  from spawning_grid_getCell obtain s' where
    g: "getCell 2 spawning_grid 0 0 = Some (0, s')" and
    c: "cells s' = [getCellKey 0 0 \<mapsto> 0]" and
    o: "cellObjs s' = [0 \<mapsto> cellAt 50 1 1 1 0 0, 1 \<mapsto> (cellAt 50 1 1 1 0 0)\<lparr>entities := {0}\<rparr>]" and
    en: "entityObjs s' = [0 \<mapsto> \<lparr>position = (25, 25), currentCell = Some 1\<rparr>]"
    by blast
  have r: "api_run 2 spawning_grid [GetCell 0 0, Clear] = Some (Grid_clear s')"
    by (simp add: g del: getCell.simps)
  have "1 \<notin> ran (cells s')" by (simp add: c)
  then have "cellObjs (Grid_clear s') 1 = cellObjs s' 1" by (rule Grid_clear_effect(4))
  then have "0 \<in> members (Grid_clear s') 1" by (simp add: members_def o)
  then show ?thesis unfolding r by (simp add: Grid_clear_effect en)
qed

section \<open>The flow direction\<close>

lemma concat_product:
  "concat (map (\<lambda>x. concat (map (\<lambda>y. g x y) ys)) xs) =
   concat (map (\<lambda>(x, y). g x y) (List.product xs ys))"
  by (induction xs) (simp_all add: comp_def)

lemma concat_map_if: "concat (map (\<lambda>z. if P z then [h z] else []) zs) = map h (filter P zs)"
  by (induction zs) simp_all

lemma ringNeighbors_map_filter:
  "ringNeighbors s c r =
     map (\<lambda>(dx, dy). the (cells s (getCellKey (cell_x c + dx) (cell_y c + dy))))
       (filter (\<lambda>(dx, dy). \<not> (dx = 0 \<and> dy = 0) \<and>
                  cells s (getCellKey (cell_x c + dx) (cell_y c + dy)) \<noteq> None)
          (List.product [- r..r] [- r..r]))"
proof -
  have "(\<lambda>(dx, dy). if dx = 0 \<and> dy = 0 then []
           else (case cells s (getCellKey (cell_x c + dx) (cell_y c + dy)) of
                   None \<Rightarrow> [] | Some neighbor \<Rightarrow> [neighbor])) =
        (\<lambda>z. if (case z of (dx, dy) \<Rightarrow> \<not> (dx = 0 \<and> dy = 0) \<and>
                  cells s (getCellKey (cell_x c + dx) (cell_y c + dy)) \<noteq> None)
              then [case z of (dx, dy) \<Rightarrow> the (cells s (getCellKey (cell_x c + dx) (cell_y c + dy)))]
              else [])"
    by (auto simp: fun_eq_iff split: option.splits)
  then show ?thesis
    unfolding ringNeighbors_def concat_product by (simp only: concat_map_if)
qed

lemma distinct_ringNeighbors:
  assumes "map_ok s"
  shows "distinct (ringNeighbors s c r)"
proof -
  let ?h = "\<lambda>(dx, dy). the (cells s (getCellKey (cell_x c + dx) (cell_y c + dy)))"
  let ?P = "\<lambda>(dx, dy). \<not> (dx = 0 \<and> dy = 0) \<and>
              cells s (getCellKey (cell_x c + dx) (cell_y c + dy)) \<noteq> None"
  have d: "distinct (filter ?P (List.product [- r..r] [- r..r]))"
    by (intro distinct_filter distinct_product distinct_upto)
  have "inj_on ?h (set (filter ?P (List.product [- r..r] [- r..r])))"
  proof (rule inj_onI)
    fix z w
    assume z: "z \<in> set (filter ?P (List.product [- r..r] [- r..r]))"
      and w: "w \<in> set (filter ?P (List.product [- r..r] [- r..r]))" and eq: "?h z = ?h w"
    obtain dx dy where zd: "z = (dx, dy)" by (cases z)
    obtain ex ey where wd: "w = (ex, ey)" by (cases w)
    from z zd obtain a where a: "cells s (getCellKey (cell_x c + dx) (cell_y c + dy)) = Some a"
      by auto
    from w wd obtain b where b: "cells s (getCellKey (cell_x c + ex) (cell_y c + ey)) = Some b"
      by auto
    from eq zd wd a b have ab: "a = b" by simp
    from assms a obtain ca where ca: "cellObjs s a = Some ca"
      "getCellKey (cell_x c + dx) (cell_y c + dy) = getCellKey (cell_x ca) (cell_y ca)"
      unfolding map_ok_def by blast
    from assms b ab ca(1) have
      "getCellKey (cell_x c + ex) (cell_y c + ey) = getCellKey (cell_x ca) (cell_y ca)"
      unfolding map_ok_def by fastforce
    with ca(2) have "dx = ex \<and> dy = ey" by simp
    with zd wd show "z = w" by simp
  qed
  with d show ?thesis unfolding ringNeighbors_map_filter by (simp only: distinct_map simp_thms)
qed

text \<open>A neighbour found through the map is a cell object at other coordinates than the cell.\<close>

lemma neighbor_elsewhere:
  assumes "map_ok s" and "a \<in> neighbors_present s c r"
  shows "\<exists>nb. cellObjs s a = Some nb \<and> \<not> (cell_x nb = cell_x c \<and> cell_y nb = cell_y c)"
proof -
  from assms(2) obtain dx dy where o: "\<not> (dx = 0 \<and> dy = 0)"
    and k: "cells s (getCellKey (cell_x c + dx) (cell_y c + dy)) = Some a"
    unfolding neighbors_present_def by blast
  from assms(1) k obtain nb where nb: "cellObjs s a = Some nb"
    "getCellKey (cell_x c + dx) (cell_y c + dy) = getCellKey (cell_x nb) (cell_y nb)"
    unfolding map_ok_def by blast
  from nb(2) have "cell_x nb = cell_x c + dx" "cell_y nb = cell_y c + dy" by simp_all
  with o nb(1) show ?thesis by auto
qed

lemma code_contribution:
  assumes "\<not> (cell_x nb = cell_x c \<and> cell_y nb = cell_y c)"
  shows "Victor_multiplyScalar
           (Victor_normalize (real_of_int (cell_x nb - cell_x c), real_of_int (cell_y nb - cell_y c)))
           (height c - height nb) = flowContribution c nb"
proof -
  let ?dx = "real_of_int (cell_x nb - cell_x c)" and ?dy = "real_of_int (cell_y nb - cell_y c)"
  from assms have "?dx \<noteq> 0 \<or> ?dy \<noteq> 0" by auto
  then have "?dx * ?dx + ?dy * ?dy \<noteq> 0" by (auto simp: add_nonneg_eq_0_iff)
  then have "sqrt (?dx * ?dx + ?dy * ?dy) \<noteq> 0" by simp
  with assms show ?thesis
    by (auto simp: Victor_multiplyScalar_def Victor_normalize_def Victor_length_def
        flowContribution_def unitDirection_def Let_def)
qed

lemma flowLoop_sum_list:
  assumes "\<forall>a\<in>set ns. \<exists>nb. cellObjs s a = Some nb \<and> \<not> (cell_x nb = cell_x c \<and> cell_y nb = cell_y c)"
  shows "flowLoop s c ns v =
     Some (fst v + (\<Sum>a\<leftarrow>ns. fst (flowContribution c (the (cellObjs s a)))),
           snd v + (\<Sum>a\<leftarrow>ns. snd (flowContribution c (the (cellObjs s a)))))"
  using assms
proof (induction ns arbitrary: v)
  case Nil
  then show ?case by simp
next
  case (Cons a ns)
  from Cons.prems obtain nb where nb: "cellObjs s a = Some nb"
    "\<not> (cell_x nb = cell_x c \<and> cell_y nb = cell_y c)" by auto
  from Cons.prems have rest: "\<forall>a\<in>set ns. \<exists>nb. cellObjs s a = Some nb \<and>
      \<not> (cell_x nb = cell_x c \<and> cell_y nb = cell_y c)" by simp
  show ?case
    by (simp add: nb(1) Let_def code_contribution[OF nb(2)] Cons.IH[OF rest] Victor_add_def
        del: of_int_diff)
qed

lemma flowContribution_fields [simp]:
  "flowContribution (c\<lparr>neighborsInRadius := m\<rparr>) nb = flowContribution c nb"
  "flowContribution c (nb\<lparr>neighborsInRadius := m\<rparr>) = flowContribution c nb"
  by (simp_all add: flowContribution_def unitDirection_def)

lemma neighbors_present_fields [simp]:
  "neighbors_present s (c\<lparr>neighborsInRadius := m\<rparr>) r = neighbors_present s c r"
  "neighbors_present s (c\<lparr>flowDirection := fd\<rparr>) r = neighbors_present s c r"
  "neighbors_present s (c\<lparr>flowDirectionCalculated := b\<rparr>) r = neighbors_present s c r"
  by (simp_all add: neighbors_present_def)


lemma flowSpec_code:
  "(if Victor_length v > 0 then Victor_normalize v else (0, 0)) =
   (let l = sqrt (fst v * fst v + snd v * snd v)
    in if l = 0 then (0, 0) else (fst v / l, snd v / l))"
proof -
  have "0 \<le> sqrt (fst v * fst v + snd v * snd v)" by simp
  then show ?thesis
    unfolding Victor_length_def Victor_normalize_def Let_def by (simp add: less_le)
qed

text \<open>
  \<open>calculateFlowDirection\<close> on a cell with no list cached for radius 3: the result is the
  flow direction of the specification in the state of the call.
\<close>

lemma calculateFlowDirection_fresh:
  assumes m: "map_ok s" and c: "cellObjs s this = Some c" and k: "cachedNeighbors c 3 = None"
  shows "\<exists>s1 c1. calculateFlowDirection s this = Some (flowSpec s c, s1) \<and>
           cellObjs s1 this = Some c1 \<and>
           flowDirectionCalculated c1 = flowDirectionCalculated c"
proof -
  let ?ring = "ringNeighbors s c 3"
  let ?cache = "case neighborsInRadius c of None \<Rightarrow> Map.empty | Some m \<Rightarrow> m"
  from k have cache3: "?cache 3 = None" by (simp add: cachedNeighbors_def split: option.splits)
  define c1 where "c1 = c\<lparr>neighborsInRadius := Some (?cache(3 \<mapsto> ?ring))\<rparr>"
  define s1 where "s1 = s\<lparr>cellObjs := (cellObjs s)(this \<mapsto> c1)\<rparr>"
  have g: "getNeighborsInRadius s this 3 = Some (?ring, s1)"
    by (simp add: getNeighborsInRadius_def c cache3 Let_def s1_def c1_def)
  have o1: "cellObjs s1 this = Some c1" by (simp add: s1_def)
  have xy: "cell_x c1 = cell_x c" "cell_y c1 = cell_y c" by (simp_all add: c1_def)
  have other: "a \<noteq> this" if "a \<in> set ?ring" for a
  proof
    assume "a = this"
    with that neighbor_elsewhere[OF m, of a c 3] c show False
      by (simp add: set_ringNeighbors)
  qed
  have objs: "\<forall>a\<in>set ?ring. \<exists>nb. cellObjs s1 a = Some nb \<and>
       \<not> (cell_x nb = cell_x c1 \<and> cell_y nb = cell_y c1)"
  proof
    fix a assume a: "a \<in> set ?ring"
    with neighbor_elsewhere[OF m, of a c 3] obtain nb where
      "cellObjs s a = Some nb" "\<not> (cell_x nb = cell_x c \<and> cell_y nb = cell_y c)"
      by (auto simp: set_ringNeighbors)
    with other[OF a] show "\<exists>nb. cellObjs s1 a = Some nb \<and>
       \<not> (cell_x nb = cell_x c1 \<and> cell_y nb = cell_y c1)"
      by (simp add: s1_def xy)
  qed
  have same: "flowContribution c1 (the (cellObjs s1 a)) = flowContribution c (the (cellObjs s a))"
    if "a \<in> set ?ring" for a
    using other[OF that] by (simp add: s1_def c1_def)
  have fstsum: "(\<Sum>a\<leftarrow>?ring. fst (flowContribution c1 (the (cellObjs s1 a)))) = fst (flowSum s c)"
  proof -
    have "(\<Sum>a\<leftarrow>?ring. fst (flowContribution c1 (the (cellObjs s1 a)))) =
          (\<Sum>a\<leftarrow>?ring. fst (flowContribution c (the (cellObjs s a))))"
      by (rule arg_cong[where f = sum_list], rule map_cong) (simp_all add: same)
    also have "\<dots> = (\<Sum>a\<in>set ?ring. fst (flowContribution c (the (cellObjs s a))))"
      by (rule sum_list_distinct_conv_sum_set[OF distinct_ringNeighbors[OF m]])
    finally show ?thesis by (simp add: flowSum_def set_ringNeighbors)
  qed
  have sndsum: "(\<Sum>a\<leftarrow>?ring. snd (flowContribution c1 (the (cellObjs s1 a)))) = snd (flowSum s c)"
  proof -
    have "(\<Sum>a\<leftarrow>?ring. snd (flowContribution c1 (the (cellObjs s1 a)))) =
          (\<Sum>a\<leftarrow>?ring. snd (flowContribution c (the (cellObjs s a))))"
      by (rule arg_cong[where f = sum_list], rule map_cong) (simp_all add: same)
    also have "\<dots> = (\<Sum>a\<in>set ?ring. snd (flowContribution c (the (cellObjs s a))))"
      by (rule sum_list_distinct_conv_sum_set[OF distinct_ringNeighbors[OF m]])
    finally show ?thesis by (simp add: flowSum_def set_ringNeighbors)
  qed
  have loop: "flowLoop s1 c1 ?ring (0, 0) = Some (flowSum s c)"
    unfolding flowLoop_sum_list[OF objs] by (simp add: fstsum sndsum)
  have fd: "(if Victor_length (flowSum s c) > 0 then Victor_normalize (flowSum s c) else (0, 0)) =
            flowSpec s c"
    unfolding flowSpec_code flowSpec_def by (simp add: Let_def)
  have "calculateFlowDirection s this =
          Some (flowSpec s c, s1\<lparr>cellObjs := (cellObjs s1)(this \<mapsto> c1\<lparr>flowDirection := flowSpec s c\<rparr>)\<rparr>)"
    unfolding calculateFlowDirection_def by (simp add: g o1 loop Let_def fd del: flowLoop.simps)
  then show ?thesis by (simp add: c1_def)
qed

text \<open>A flat neighbourhood: every neighbour present has the height of the cell.\<close>

lemma flowSpec_flat:
  assumes "\<forall>a\<in>neighbors_present s c 3. height (the (cellObjs s a)) = height c"
  shows "flowSpec s c = (0, 0)"
proof -
  from assms have "flowSum s c = (0, 0)"
    by (simp add: flowSum_def flowContribution_def)
  then show ?thesis by (simp add: flowSpec_def)
qed

text \<open>
  C4, as the code computes. On a cell whose flow direction is not yet calculated and which
  has no list cached for radius 3, \<open>getFlowDirection\<close> returns the flow direction of the
  specification in the state of the call: the normalized sum of the contributions of the
  neighbours present in the Grid's map within Chebyshev radius 3, the zero vector when the
  sum has zero magnitude, and so the zero vector when every such neighbour has the height
  of the cell. The call stores the result on the cell and marks it calculated, and the next
  call returns the same vector. On a cell marked calculated, \<open>getFlowDirection\<close> returns the
  stored vector and changes nothing.
\<close>

theorem getFlowDirection_first_call:
  assumes "map_ok s" and "cellObjs s this = Some c"
  shows "(\<not> flowDirectionCalculated c \<and> cachedNeighbors c 3 = None \<longrightarrow>
           (\<exists>s' c'. getFlowDirection s this = Some (flowSpec s c, s') \<and>
              cellObjs s' this = Some c' \<and> flowDirectionCalculated c' \<and>
              flowDirection c' = flowSpec s c \<and>
              getFlowDirection s' this = Some (flowSpec s c, s'))) \<and>
         (flowDirectionCalculated c \<longrightarrow> getFlowDirection s this = Some (flowDirection c, s)) \<and>
         ((\<forall>a\<in>neighbors_present s c 3. height (the (cellObjs s a)) = height c) \<longrightarrow>
            flowSpec s c = (0, 0))"
proof (intro conjI impI)
  assume a: "\<not> flowDirectionCalculated c \<and> cachedNeighbors c 3 = None"
  from a have k: "cachedNeighbors c 3 = None" by simp
  from calculateFlowDirection_fresh[OF assms k] obtain s1 c1 where
    calc: "calculateFlowDirection s this = Some (flowSpec s c, s1)" and
    o1: "cellObjs s1 this = Some c1"
    by blast
  define c' where "c' = c1\<lparr>flowDirection := flowSpec s c, flowDirectionCalculated := True\<rparr>"
  define s' where "s' = s1\<lparr>cellObjs := (cellObjs s1)(this \<mapsto> c')\<rparr>"
  have first: "getFlowDirection s this = Some (flowSpec s c, s')"
    using a by (simp add: getFlowDirection_def assms(2) calc o1 s'_def c'_def)
  have o': "cellObjs s' this = Some c'" by (simp add: s'_def)
  have c'f: "flowDirectionCalculated c'" "flowDirection c' = flowSpec s c" by (simp_all add: c'_def)
  have "getFlowDirection s' this = Some (flowSpec s c, s')"
    by (simp add: getFlowDirection_def o' c'f)
  with first o' c'f show "\<exists>s' c'. getFlowDirection s this = Some (flowSpec s c, s') \<and>
      cellObjs s' this = Some c' \<and> flowDirectionCalculated c' \<and>
      flowDirection c' = flowSpec s c \<and> getFlowDirection s' this = Some (flowSpec s c, s')"
    by blast
next
  assume "flowDirectionCalculated c"
  then show "getFlowDirection s this = Some (flowDirection c, s)"
    by (simp add: getFlowDirection_def assms(2))
next
  assume "\<forall>a\<in>neighbors_present s c 3. height (the (cellObjs s a)) = height c"
  then show "flowSpec s c = (0, 0)" by (rule flowSpec_flat)
qed


section \<open>A slope\<close>

text \<open>
  With height frequency one half the cell (1, 0) is sampled at (0.5, 0), between the
  lattice points (0, 0) and (1, 0). The hashes of the two points for the height seed 456
  are 456000 and 375217393, both angles lie in the upper half circle, and the sample is
  above one half.
\<close>

lemma hashAngle_456:
  "hashAngle 456 0 0 = 912000 / 2147483647 * pi"
  "hashAngle 456 1 0 = 750434786 / 2147483647 * pi"
  by (simp_all add: hashAngle_def js_rem_def Let_def)

lemma cos_456: "cos (hashAngle 456 1 0) < cos (hashAngle 456 0 0)"
proof (rule cos_monotone_0_pi)
  show "0 \<le> hashAngle 456 0 0" by (simp add: hashAngle_456)
  show "hashAngle 456 0 0 < hashAngle 456 1 0" by (simp add: hashAngle_456)
  have "750434786 / 2147483647 * pi \<le> 1 * pi"
    by (rule mult_right_mono) simp_all
  then show "hashAngle 456 1 0 \<le> pi" by (simp add: hashAngle_456)
qed

lemma floor_half: "\<lfloor>(1::real) / 2\<rfloor> = 0"
  by (simp add: floor_eq_iff)

lemma clamp_mid:
  fixes A B :: real
  assumes "- 1 \<le> A" "A \<le> 1" "- 1 \<le> B" "B \<le> 1"
  shows "max 0 (min 1 (1/2 + (A - B) / 8)) = 1/2 + (A - B) / 8"
proof -
  from assms have lo: "0 \<le> 1/2 + (A - B) / 8" by argo
  from assms have hi: "1/2 + (A - B) / 8 \<le> 1" by argo
  from hi have "min 1 (1/2 + (A - B) / 8) = 1/2 + (A - B) / 8" by (rule min_absorb2)
  with lo show ?thesis by (simp only: max_absorb2)
qed

lemma noiseAt_456_half:
  "noiseAt 456 (1/2) 0 = 1/2 + (cos (hashAngle 456 0 0) - cos (hashAngle 456 1 0)) / 8"
proof -
  let ?A = "cos (hashAngle 456 0 0)" and ?B = "cos (hashAngle 456 1 0)"
  have e: "(1 + ?A / 4 - ?B / 4) / 2 = 1/2 + (?A - ?B) / 8" by (simp add: field_simps)
  have "noiseAt 456 (1/2) 0 = max 0 (min 1 (1/2 + (?A - ?B) / 8))"
    unfolding noiseAt_def Let_def floor_half
    by (simp add: dotAt_def interpolate_def gradientAt_def algebra_simps) (simp only: e)
  also have "\<dots> = 1/2 + (?A - ?B) / 8"
    by (rule clamp_mid) simp_all
  finally show ?thesis .
qed

lemma height_slope: "1/2 < noiseAt 456 (1/2) 0"
  using cos_456 by (simp add: noiseAt_456_half)


lemma flow_fields_cellAt [simp]:
  "flowDirectionCalculated (cellAt cs fs fh ft x y) = False"
  "height (cellAt cs fs fh ft x y) = noiseAt 456 (real_of_int x * fh) (real_of_int y * fh)"
  by (simp_all add: cellAt_def Cell_fields_def)

text \<open>A program on a new Grid with no random number below 0.3 that makes the cells (0, 0)
  and (1, 0).\<close>

lemma two_cells_run:
  assumes snd: "sound s" and q: "quiet s" and e: "cells s = Map.empty" and n: "nextCell s = 0"
  shows "\<exists>s2. api_run (Suc d) s [GetCell 0 0, GetCell 1 0] = Some s2 \<and>
           cells s2 = [getCellKey 0 0 \<mapsto> 0, getCellKey 1 0 \<mapsto> 1] \<and>
           cellObjs s2 =
             [0 \<mapsto> cellAt (cellSize s) (freq_soilFertility s) (freq_height s) (freq_temperature s) 0 0,
              1 \<mapsto> cellAt (cellSize s) (freq_soilFertility s) (freq_height s) (freq_temperature s) 1 0] \<and>
           sound s2"
proof -
  let ?c0 = "cellAt (cellSize s) (freq_soilFertility s) (freq_height s) (freq_temperature s) 0 0"
  let ?c1 = "cellAt (cellSize s) (freq_soilFertility s) (freq_height s) (freq_temperature s) 1 0"
  from snd n have objs: "cellObjs s = Map.empty"
    by (auto simp: sound_def alloc_ok_def fun_eq_iff)
  from e have none0: "cells s (getCellKey 0 0) = None" by simp
  from getCell_new_quiet[OF snd none0 q, of d] n objs e obtain s1 where
    g1: "getCell (Suc d) s 0 0 = Some (0, s1)" and c1: "cells s1 = [getCellKey 0 0 \<mapsto> 0]" and
    o1: "cellObjs s1 = [0 \<mapsto> ?c0]" and n1: "nextCell s1 = Suc 0" and cf1: "config s1 = config s" and
    s1: "sound s1" and q1: "quiet s1"
    by auto
  have none1: "cells s1 (getCellKey 1 0) = None" by (simp add: c1)
  have cfg: "cellSize s1 = cellSize s" "freq_soilFertility s1 = freq_soilFertility s"
    "freq_height s1 = freq_height s" "freq_temperature s1 = freq_temperature s"
    using cf1 by (simp_all add: config_def)
  from getCell_new_quiet[OF s1 none1 q1, of d] obtain s2 where
    g2: "getCell (Suc d) s1 1 0 = Some (nextCell s1, s2)" and
    c2: "cells s2 = (cells s1)(getCellKey 1 0 \<mapsto> nextCell s1)" and
    o2: "cellObjs s2 = (cellObjs s1)(nextCell s1 \<mapsto> ?c1)" and
    s2: "sound s2"
    unfolding cfg by blast
  have "api_run (Suc d) s [GetCell 0 0, GetCell 1 0] = Some s2"
    by (simp add: g1 g2 del: getCell.simps)
  moreover have "cells s2 = [getCellKey 0 0 \<mapsto> 0, getCellKey 1 0 \<mapsto> 1]"
    by (simp add: c2 n1 c1)
  moreover have "cellObjs s2 = [0 \<mapsto> ?c0, 1 \<mapsto> ?c1]"
    by (simp add: o2 n1 o1)
  ultimately show ?thesis using s2 by simp
qed

text \<open>In a map that holds the cells (0, 0) and (1, 0) only, the cell (0, 0) has one
  neighbour, and its flow direction is decided by the height of that neighbour.\<close>

lemma neighbors_present_two:
  assumes "cells s = [getCellKey 0 0 \<mapsto> 0, getCellKey 1 0 \<mapsto> 1]"
    and "cell_x c = 0" and "cell_y c = 0"
  shows "neighbors_present s c 3 = {1}"
proof -
  have "1 \<in> neighbors_present s c 3"
    unfolding neighbors_present_def
    by (simp add: assms) (intro exI[of _ 1] exI[of _ 0], simp)
  moreover have "a = 1" if "a \<in> neighbors_present s c 3" for a
    using that unfolding neighbors_present_def by (auto simp: assms split: if_splits)
  ultimately show ?thesis by blast
qed

lemma flowSpec_two:
  assumes cs: "cells s = [getCellKey 0 0 \<mapsto> 0, getCellKey 1 0 \<mapsto> 1]"
    and c: "cell_x c = 0" "cell_y c = 0"
    and nb: "cellObjs s 1 = Some nb" "cell_x nb = 1" "cell_y nb = 0"
  shows "height c < height nb \<Longrightarrow> flowSpec s c = (- 1, 0)"
    and "height c = height nb \<Longrightarrow> flowSpec s c = (0, 0)"
proof -
  have u: "unitDirection c nb = (1, 0)" by (simp add: unitDirection_def c nb)
  from nb(1) have nb': "cellObjs s (Suc 0) = Some nb" by simp
  have fs: "flowSum s c = (height c - height nb, 0)"
    by (simp add: flowSum_def neighbors_present_two[OF cs c] nb' flowContribution_def u)
  show "flowSpec s c = (- 1, 0)" if "height c < height nb"
    using that by (simp add: flowSpec_def fs Let_def divide_eq_minus_1_iff)
  show "flowSpec s c = (0, 0)" if "height c = height nb"
    using that by (simp add: flowSpec_def fs Let_def)
qed

lemma sloped_grid_facts:
  "sound sloped_grid" "quiet sloped_grid" "cells sloped_grid = Map.empty" "nextCell sloped_grid = 0"
  "cellSize sloped_grid = 50" "freq_soilFertility sloped_grid = 1" "freq_height sloped_grid = 1/2"
  "freq_temperature sloped_grid = 1"
proof -
  show "sound sloped_grid" unfolding sloped_grid_def by (rule Grid_new_sound) simp
qed (simp_all add: sloped_grid_def Grid_new_def quiet_def)

lemma example_grid_facts:
  "quiet example_grid" "cells example_grid = Map.empty" "nextCell example_grid = 0"
  "cellSize example_grid = 50" "freq_soilFertility example_grid = 1" "freq_height example_grid = 1"
  "freq_temperature example_grid = 1"
  by (simp_all add: example_grid_def Grid_new_def quiet_def)

text \<open>
  C4 fails on a cell with a stale list. On the sloped Grid a program makes the cell (0, 0),
  asks it for its neighbours within radius 3 (none yet), and makes the cell (1, 0), which
  is higher. The flow direction of the cell (0, 0) is not calculated yet; the first call
  of \<open>getFlowDirection\<close> sums over the cached empty list and returns the zero vector, and
  the normalized sum over the neighbours in the map is (-1, 0).
\<close>

theorem stale_flow_counterexample:
  "api_run 1 sloped_grid [GetCell 0 0, GetNeighborsInRadius 0 3, GetCell 1 0] \<noteq> None \<and>
   map_option flowDirectionCalculated
     (cellObjs (the (api_run 1 sloped_grid [GetCell 0 0, GetNeighborsInRadius 0 3, GetCell 1 0])) 0) =
     Some False \<and>
   map_option fst (getFlowDirection
     (the (api_run 1 sloped_grid [GetCell 0 0, GetNeighborsInRadius 0 3, GetCell 1 0])) 0) =
     Some (0, 0) \<and>
   flowSpec (the (api_run 1 sloped_grid [GetCell 0 0, GetNeighborsInRadius 0 3, GetCell 1 0]))
     (the (cellObjs (the (api_run 1 sloped_grid
        [GetCell 0 0, GetNeighborsInRadius 0 3, GetCell 1 0])) 0)) = (- 1, 0)"
proof -
  let ?c0 = "(cellAt 50 1 (1/2) 1 0 0)\<lparr>neighborsInRadius := Some [3 \<mapsto> []]\<rparr>"
  let ?c1 = "cellAt 50 1 (1/2) 1 1 0"
  from stale_neighbors_run[OF sloped_grid_facts(1-4), of 0 3] obtain S where
    r: "api_run (Suc 0) sloped_grid [GetCell 0 0, GetNeighborsInRadius 0 3, GetCell 1 0] = Some S" and
    c: "cells S = [getCellKey 0 0 \<mapsto> 0, getCellKey 1 0 \<mapsto> 1]" and
    o0: "cellObjs S 0 = Some ?c0" and o1: "cellObjs S 1 = Some ?c1"
    unfolding sloped_grid_facts by auto
  have nc: "map_option flowDirectionCalculated (cellObjs S 0) = Some False"
    by (simp add: o0)
  have g: "getNeighborsInRadius S 0 3 =
      Some ([], S\<lparr>cellObjs := (cellObjs S)(0 \<mapsto> ?c0\<lparr>neighborsInRadius := Some [3 \<mapsto> []]\<rparr>)\<rparr>)"
    by (simp add: getNeighborsInRadius_def o0)
  have calc: "map_option fst (calculateFlowDirection S 0) = Some (0, 0)"
    by (simp add: calculateFlowDirection_def g Victor_length_def Let_def)
  have stale: "map_option fst (getFlowDirection S 0) = Some (0, 0)"
    using calc by (auto simp: getFlowDirection_def o0 calculateFlowDirection_def g Let_def
        split: option.splits)
  have "height ?c0 < height ?c1" using height_slope by simp
  from flowSpec_two(1)[OF c _ _ o1 _ _ this] have "flowSpec S ?c0 = (- 1, 0)" by simp
  with r nc stale o0 show ?thesis by simp
qed

text \<open>
  The same two cells made with no call in between: the first call of \<open>getFlowDirection\<close> on
  the cell (0, 0) returns (-1, 0), away from the higher cell (1, 0), and so does the
  second. On the Grid with all frequencies 1 every height is one half and the flow
  direction is the zero vector.
\<close>

theorem getFlowDirection_first_call_witness:
  "map_option fst (getFlowDirection (the (api_run 1 sloped_grid [GetCell 0 0, GetCell 1 0])) 0) =
     Some (- 1, 0) \<and>
   map_option fst (getFlowDirection (snd (the (getFlowDirection
       (the (api_run 1 sloped_grid [GetCell 0 0, GetCell 1 0])) 0))) 0) = Some (- 1, 0) \<and>
   map_option fst (getFlowDirection (the (api_run 1 example_grid [GetCell 0 0, GetCell 1 0])) 0) =
     Some (0, 0)"
proof -
  let ?c0 = "cellAt 50 1 (1/2) 1 0 0" and ?c1 = "cellAt 50 1 (1/2) 1 1 0"
  let ?e0 = "cellAt 50 1 1 1 0 0" and ?e1 = "cellAt 50 1 1 1 1 0"
  from two_cells_run[OF sloped_grid_facts(1-4), of 0] obtain S where
    r: "api_run (Suc 0) sloped_grid [GetCell 0 0, GetCell 1 0] = Some S" and
    c: "cells S = [getCellKey 0 0 \<mapsto> 0, getCellKey 1 0 \<mapsto> 1]" and
    o0: "cellObjs S 0 = Some ?c0" and o1: "cellObjs S 1 = Some ?c1" and snd: "sound S"
    unfolding sloped_grid_facts by auto
  from two_cells_run[OF example_grid_sound example_grid_facts(1-3), of 0] obtain E where
    re: "api_run (Suc 0) example_grid [GetCell 0 0, GetCell 1 0] = Some E" and
    ce: "cells E = [getCellKey 0 0 \<mapsto> 0, getCellKey 1 0 \<mapsto> 1]" and
    e0: "cellObjs E 0 = Some ?e0" and e1: "cellObjs E 1 = Some ?e1" and snde: "sound E"
    unfolding example_grid_facts by auto
  from snd have m: "map_ok S" by (simp add: sound_def)
  from snde have me: "map_ok E" by (simp add: sound_def)
  have k: "\<not> flowDirectionCalculated ?c0 \<and> cachedNeighbors ?c0 3 = None"
    by (simp add: cachedNeighbors_def)
  have ke: "\<not> flowDirectionCalculated ?e0 \<and> cachedNeighbors ?e0 3 = None"
    by (simp add: cachedNeighbors_def)
  have "height ?c0 < height ?c1" using height_slope by simp
  from flowSpec_two(1)[OF c _ _ o1 _ _ this] have fs: "flowSpec S ?c0 = (- 1, 0)" by simp
  have "height ?e0 = height ?e1" using noiseAt_lattice[of 456 1 0] by simp
  from flowSpec_two(2)[OF ce _ _ e1 _ _ this] have fe: "flowSpec E ?e0 = (0, 0)" by simp
  from getFlowDirection_first_call[OF m o0] k fs obtain S' where
    "getFlowDirection S 0 = Some ((- 1, 0), S')" "getFlowDirection S' 0 = Some ((- 1, 0), S')"
    by auto
  moreover from getFlowDirection_first_call[OF me e0] ke fe obtain E' where
    "getFlowDirection E 0 = Some ((0, 0), E')"
    by auto
  ultimately show ?thesis using r re by simp
qed

end
